theory Spec2Isabelle
  imports
    Complex_Main
    "HOL-Library.AList"
    "HOL-Library.Char_ord"
    "HOL-Library.List_Lexorder"
    "HOL-Library.Multiset"
begin

section \<open>JavaScript containers\<close>

text \<open>
  A JavaScript \<^verbatim>\<open>Map\<close> is an association list in insertion order.
  \<^verbatim>\<open>Map.prototype.set\<close> overwrites the value of a key that is present, in place,
  and appends a key that is new; \<^verbatim>\<open>Map.prototype.get\<close> yields \<^verbatim>\<open>undefined\<close>
  (here \<open>None\<close>) for a key that is absent.
\<close>

type_synonym ('k, 'v) js_map = "('k \<times> 'v) list"

definition Map_set :: "('k, 'v) js_map \<Rightarrow> 'k \<Rightarrow> 'v \<Rightarrow> ('k, 'v) js_map" where
  "Map_set m k v = AList.update k v m"

definition Map_get :: "('k, 'v) js_map \<Rightarrow> 'k \<Rightarrow> 'v option" where
  "Map_get m k = map_of m k"

text \<open>
  \<^verbatim>\<open>new Set(xs)\<close> followed by \<^verbatim>\<open>Array.from\<close>: the distinct elements, each at the
  place of its first occurrence.
\<close>

definition Set_from :: "'a list \<Rightarrow> 'a list" where
  "Set_from xs = rev (remdups (rev xs))"

text \<open>
  \<^verbatim>\<open>s.split('')\<close>: one string of length one per code unit. A code unit is modelled
  by \<^typ>\<open>char\<close>; the default \<^verbatim>\<open>Array.prototype.sort\<close> compares strings
  lexicographically by code unit, which is the order of \<^typ>\<open>string\<close> here.
\<close>

definition split_chars :: "string \<Rightarrow> string list" where
  "split_chars s = map (\<lambda>c. [c]) s"

section \<open>Tokenizer (services/tokenizer.ts)\<close>

record SerializedTokenizer =
  charToId :: "(string \<times> nat) list"
  idToChar :: "(nat \<times> string) list"
  ser_vocabSize :: nat

record SimpleTokenizer =
  vocab :: "(string, nat) js_map"
  inverseVocab :: "(nat, string) js_map"
  vocabSize :: nat

datatype TokenizerInput = Corpus string | Serialized SerializedTokenizer

text \<open>
  \<^verbatim>\<open>Object.entries\<close> lists the own properties of an object: first the keys that
  are array indices (canonical decimal numerals below \<open>2^32 - 1\<close>) in ascending numeric
  order, then the other string keys in the order in which they were created.
  An object is kept as the list of its properties in creation order.
\<close>

definition is_digit :: "char \<Rightarrow> bool" where
  "is_digit c = (CHR ''0'' \<le> c \<and> c \<le> CHR ''9'')"

definition digit_val :: "char \<Rightarrow> nat" where
  "digit_val c = of_char c - of_char CHR ''0''"

definition decimal_val :: "string \<Rightarrow> nat" where
  "decimal_val s = foldl (\<lambda>n c. 10 * n + digit_val c) 0 s"

definition is_array_index :: "string \<Rightarrow> bool" where
  "is_array_index s =
     (s \<noteq> [] \<and> list_all is_digit s \<and> (hd s \<noteq> CHR ''0'' \<or> length s = 1)
      \<and> int (decimal_val s) < 4294967295)"

definition Object_entries :: "(string \<times> 'v) list \<Rightarrow> (string \<times> 'v) list" where
  "Object_entries ob =
     sort_key (\<lambda>p. decimal_val (fst p)) (filter (\<lambda>p. is_array_index (fst p)) ob)
     @ filter (\<lambda>p. \<not> is_array_index (fst p)) ob"

text \<open>
  The same for \<^verbatim>\<open>Record<number, string>\<close>, whose keys the declared type gives as
  numbers: \<^verbatim>\<open>Number(id)\<close> of such a key is the number itself.
\<close>

definition Object_entries_num :: "(nat \<times> 'v) list \<Rightarrow> (nat \<times> 'v) list" where
  "Object_entries_num ob =
     sort_key fst (filter (\<lambda>p. int (fst p) < 4294967295) ob)
     @ filter (\<lambda>p. \<not> int (fst p) < 4294967295) ob"

text \<open>
  \<^verbatim>\<open>Object.fromEntries\<close> defines one property per entry, a later entry with the
  same key replacing the value of the earlier one.
\<close>

definition Object_fromEntries :: "('k \<times> 'v) list \<Rightarrow> ('k \<times> 'v) list" where
  "Object_fromEntries es = fold (\<lambda>p ob. AList.update (fst p) (snd p) ob) es []"

text \<open>The \<^verbatim>\<open>chars.forEach\<close> loop of the constructor, with its counter \<open>idx\<close>.\<close>

fun forEach_char :: "string list \<Rightarrow> nat \<Rightarrow> SimpleTokenizer \<Rightarrow> nat \<times> SimpleTokenizer" where
  "forEach_char [] idx t = (idx, t)"
| "forEach_char (ch # chs) idx t =
     forEach_char chs (idx + 1)
       (t\<lparr>vocab := Map_set (vocab t) ch idx,
          inverseVocab := Map_set (inverseVocab t) idx ch\<rparr>)"

text \<open>The two \<^verbatim>\<open>forEach\<close> loops that hydrate a tokenizer from serialized data.\<close>

definition hydrate_vocab :: "(string \<times> nat) list \<Rightarrow> (string, nat) js_map \<Rightarrow> (string, nat) js_map" where
  "hydrate_vocab es m = fold (\<lambda>p m'. Map_set m' (fst p) (snd p)) es m"

definition hydrate_inverse :: "(nat \<times> string) list \<Rightarrow> (nat, string) js_map \<Rightarrow> (nat, string) js_map" where
  "hydrate_inverse es m = fold (\<lambda>p m'. Map_set m' (fst p) (snd p)) es m"

text \<open>
  The constructor. A serialized input is taken as its interface declares it, with both
  tables present, so the guard \<^verbatim>\<open>input && input.charToId && input.idToChar\<close>
  holds.
\<close>

definition SimpleTokenizer_new :: "TokenizerInput \<Rightarrow> SimpleTokenizer" where
  "SimpleTokenizer_new input =
     (let t0 = \<lparr>vocab = [], inverseVocab = [], vocabSize = 0\<rparr> in
      case input of
        Corpus s \<Rightarrow>
          (let chars = sort (Set_from (split_chars s));
               t1 = t0\<lparr>vocab := Map_set (vocab t0) ''<PAD>'' 0\<rparr>;
               t2 = t1\<lparr>vocab := Map_set (vocab t1) ''<UNK>'' 1\<rparr>;
               t3 = t2\<lparr>inverseVocab := Map_set (inverseVocab t2) 0 ''<PAD>''\<rparr>;
               t4 = t3\<lparr>inverseVocab := Map_set (inverseVocab t3) 1 ''<UNK>''\<rparr>;
               r = forEach_char chars 2 t4
           in (snd r)\<lparr>vocabSize := fst r\<rparr>)
      | Serialized ser \<Rightarrow>
          t0\<lparr>vocab := hydrate_vocab (Object_entries (charToId ser)) (vocab t0),
             inverseVocab := hydrate_inverse (Object_entries_num (idToChar ser)) (inverseVocab t0),
             vocabSize := ser_vocabSize ser\<rparr>)"

text \<open>
  \<^verbatim>\<open>this.vocab.get(char) || 1\<close>: an absent key and the falsy id \<open>0\<close> both give \<open>1\<close>.
\<close>

definition encode :: "SimpleTokenizer \<Rightarrow> string \<Rightarrow> nat list" where
  "encode t text =
     map (\<lambda>ch. case Map_get (vocab t) ch of
                  None \<Rightarrow> 1
                | Some i \<Rightarrow> if i = 0 then 1 else i)
         (split_chars text)"

text \<open>
  \<^verbatim>\<open>this.inverseVocab.get(id) || ''\<close>, joined: an absent id contributes nothing.
\<close>

definition decode :: "SimpleTokenizer \<Rightarrow> nat list \<Rightarrow> string" where
  "decode t ids =
     concat (map (\<lambda>i. case Map_get (inverseVocab t) i of
                        None \<Rightarrow> ''''
                      | Some ch \<Rightarrow> ch) ids)"

definition getVocabSize :: "SimpleTokenizer \<Rightarrow> nat" where
  "getVocabSize t = vocabSize t"

section \<open>Training (services/training.ts)\<close>

text \<open>
  The errors the code raises: the one \<^verbatim>\<open>buildDataset\<close> throws itself, and the
  errors of the tensor library (a shape that its values do not fill, a tensor built
  from a number of values that its shape does not have, a variable that is gone).
\<close>

datatype js_error = TextTooShort | InvalidTensorShape | TensorSizeMismatch | TensorDisposed

text \<open>An int32 \<^verbatim>\<open>Tensor2D\<close> is the list of its rows.\<close>

type_synonym Tensor2D = "nat list list"

record Dataset =
  inputs :: Tensor2D
  targets :: Tensor2D

record TrainingConfig =
  batchSize :: nat
  epochs :: nat
  learningRate :: real
  seqLen :: nat

text \<open>\<^verbatim>\<open>xs.slice(a, b)\<close> for indices that are not negative.\<close>

definition slice :: "'a list \<Rightarrow> nat \<Rightarrow> nat \<Rightarrow> 'a list" where
  "slice xs a b = take (b - a) (drop a xs)"

text \<open>
  \<^verbatim>\<open>tf.tensor2d(values, [rows, cols], 'int32')\<close> throws unless the nested array has
  the shape it is given.
\<close>

definition tensor2d :: "nat list list \<Rightarrow> nat \<Rightarrow> nat \<Rightarrow> js_error + Tensor2D" where
  "tensor2d values rows cols =
     (if length values = rows \<and> list_all (\<lambda>row. length row = cols) values
      then Inr values else Inl InvalidTensorShape)"

text \<open>
  The loop \<^verbatim>\<open>for (let i = 0; i <= ids.length - seqLen - 1; i++)\<close>, which pushes one
  input window and one target window per round. The bound is an integer that may be
  negative; \<open>i \<le> ids.length - seqLen - 1\<close> is \<open>i + seqLen + 1 \<le> ids.length\<close>.
\<close>

function windows_loop ::
  "nat list \<Rightarrow> nat \<Rightarrow> nat \<Rightarrow> nat list list \<times> nat list list \<Rightarrow> nat list list \<times> nat list list" where
  "windows_loop ids sl i acc =
     (if i + sl + 1 \<le> length ids
      then windows_loop ids sl (i + 1)
             (fst acc @ [slice ids i (i + sl)], snd acc @ [slice ids (i + 1) (i + sl + 1)])
      else acc)"
  by pat_completeness auto
termination
  by (relation "measure (\<lambda>(ids, sl, i, acc). length ids - i)") auto

declare windows_loop.simps [simp del]

text \<open>
  \<^verbatim>\<open>buildDataset\<close>. With batch size \<open>0\<close> the sample count
  \<^verbatim>\<open>Math.floor(n / 0) * 0\<close> is \<^verbatim>\<open>NaN\<close>, which is not \<^verbatim>\<open>=== 0\<close>, and the tensor
  library rejects the shape \<^verbatim>\<open>[NaN, seqLen]\<close>.
\<close>

definition buildDataset :: "string \<Rightarrow> SimpleTokenizer \<Rightarrow> nat \<Rightarrow> nat \<Rightarrow> js_error + Dataset" where
  "buildDataset text tokenizer sl bs =
     (let ids = encode tokenizer text;
          windows = windows_loop ids sl 0 ([], []);
          inputIndices = fst windows;
          targetIndices = snd windows
      in if bs = 0 then Inl InvalidTensorShape
         else
           let numSamples = (length inputIndices div bs) * bs in
           if numSamples = 0 then Inl TextTooShort
           else
             let slicedInputs = slice inputIndices 0 numSamples;
                 slicedTargets = slice targetIndices 0 numSamples
             in case tensor2d slicedInputs numSamples sl of
                  Inl e \<Rightarrow> Inl e
                | Inr i \<Rightarrow>
                    (case tensor2d slicedTargets numSamples sl of
                       Inl e \<Rightarrow> Inl e
                     | Inr t \<Rightarrow> Inr \<lparr>inputs = i, targets = t\<rparr>))"

text \<open>What \<^verbatim>\<open>onLog\<close> is called with, one constructor per message of the source.\<close>

datatype log_msg =
    PreparingDataset nat
  | ErrorMessage js_error
  | DatasetCreated nat nat
  | EpochLoss nat nat real
  | TrainingComplete

text \<open>
  \<^verbatim>\<open>inputs.slice([start, 0], [batchSize, seqLen])\<close>: \<open>batchSize\<close> rows from row
  \<open>start\<close>, the first \<open>seqLen\<close> columns of each.
\<close>

definition slice2d :: "Tensor2D \<Rightarrow> nat \<Rightarrow> nat \<Rightarrow> nat \<Rightarrow> Tensor2D" where
  "slice2d t start rows cols = map (take cols) (take rows (drop start t))"

text \<open>
  The optimisation step is the tensor library's: the forward pass, the loss, its
  gradients and \<^verbatim>\<open>optimizer.applyGradients\<close>. It is the parameter \<open>train_step\<close>, from
  the optimizer state, the parameter tensors and one batch to the new optimizer state,
  the updated parameter tensors and the loss value, or to the error it throws.
  The inner loop runs the steps of one epoch and adds up the loss; an error leaves the
  parameters as the last successful step left them.
\<close>

function steps_loop ::
  "('o \<Rightarrow> 'w \<Rightarrow> Tensor2D \<Rightarrow> Tensor2D \<Rightarrow> js_error + ('o \<times> 'w \<times> real)) \<Rightarrow>
   TrainingConfig \<Rightarrow> Dataset \<Rightarrow> nat \<Rightarrow> nat \<Rightarrow> 'o \<times> 'w \<times> real \<Rightarrow> js_error option \<times> 'o \<times> 'w \<times> real" where
  "steps_loop train_step config ds stepsPerEpoch step st =
     (if step < stepsPerEpoch then
        (let start = step * batchSize config;
             batchInputs = slice2d (inputs ds) start (batchSize config) (seqLen config);
             batchTargets = slice2d (targets ds) start (batchSize config) (seqLen config)
         in case train_step (fst st) (fst (snd st)) batchInputs batchTargets of
              Inl e \<Rightarrow> (Some e, st)
            | Inr (opt, w, lossVal) \<Rightarrow>
                steps_loop train_step config ds stepsPerEpoch (step + 1)
                  (opt, w, snd (snd st) + lossVal))
      else (None, st))"
  by pat_completeness auto
termination
  by (relation "measure (\<lambda>(f, config, ds, stepsPerEpoch, step, st). stepsPerEpoch - step)") auto

declare steps_loop.simps [simp del]

function epochs_loop ::
  "('o \<Rightarrow> 'w \<Rightarrow> Tensor2D \<Rightarrow> Tensor2D \<Rightarrow> js_error + ('o \<times> 'w \<times> real)) \<Rightarrow>
   TrainingConfig \<Rightarrow> Dataset \<Rightarrow> nat \<Rightarrow> nat \<Rightarrow> 'o \<times> 'w \<Rightarrow> log_msg list \<Rightarrow>
   js_error option \<times> 'w \<times> log_msg list" where
  "epochs_loop train_step config ds stepsPerEpoch epoch st lg =
     (if epoch \<le> epochs config then
        (case steps_loop train_step config ds stepsPerEpoch 0 (fst st, snd st, 0) of
           (Some e, opt, w, totalLoss) \<Rightarrow> (Some e, w, lg)
         | (None, opt, w, totalLoss) \<Rightarrow>
             epochs_loop train_step config ds stepsPerEpoch (epoch + 1) (opt, w)
               (lg @ [EpochLoss epoch (epochs config) (totalLoss / real stepsPerEpoch)]))
      else (None, snd st, lg))"
  by pat_completeness auto
termination
  by (relation "measure (\<lambda>(f, config, ds, stepsPerEpoch, epoch, st, lg). Suc (epochs config) - epoch)") auto

declare epochs_loop.simps [simp del]

text \<open>
  \<^verbatim>\<open>trainModel\<close>: the parameter tensors after the call, the messages logged, and the
  error with which the call ended, if any. \<open>adam\<close> is \<^verbatim>\<open>tf.train.adam\<close>.
\<close>

definition trainModel ::
  "(real \<Rightarrow> 'o) \<Rightarrow> ('o \<Rightarrow> 'w \<Rightarrow> Tensor2D \<Rightarrow> Tensor2D \<Rightarrow> js_error + ('o \<times> 'w \<times> real)) \<Rightarrow>
   'w \<Rightarrow> SimpleTokenizer \<Rightarrow> string \<Rightarrow> TrainingConfig \<Rightarrow> js_error option \<times> 'w \<times> log_msg list" where
  "trainModel adam train_step w tokenizer corpus config =
     (let lg = [PreparingDataset (length corpus)] in
      case buildDataset corpus tokenizer (seqLen config) (batchSize config) of
        Inl e \<Rightarrow> (None, w, lg @ [ErrorMessage e])
      | Inr dataset \<Rightarrow>
          (let numSamples = length (inputs dataset);
               stepsPerEpoch = numSamples div batchSize config;
               lg1 = lg @ [DatasetCreated numSamples stepsPerEpoch];
               optimizer = adam (learningRate config)
           in case epochs_loop train_step config dataset stepsPerEpoch 1 (optimizer, w) lg1 of
                (Some e, w', lg2) \<Rightarrow> (Some e, w', lg2)
              | (None, w', lg2) \<Rightarrow> (None, w', lg2 @ [TrainingComplete])))"

section \<open>Generation (services/generation.ts)\<close>

text \<open>
  A float32 \<^verbatim>\<open>Tensor1D\<close> is a list of reals. Two operations of the tensor library
  are used by the sampler. \<^verbatim>\<open>tf.topk(x, k)\<close> gives the \<open>k\<close> largest values in
  descending order with their indices, equal values in ascending order of index.
  \<^verbatim>\<open>tf.softmax\<close> is computed by the library in float32, so its result need not sum
  to one; it is the parameter \<open>softmax\<close> of the sampler.
\<close>

definition topk :: "real list \<Rightarrow> nat \<Rightarrow> real list \<times> nat list" where
  "topk xs k =
     (let sorted = take k (sort_key (\<lambda>p. - fst p) (zip xs [0..<length xs]))
      in (map fst sorted, map snd sorted))"

text \<open>
  \<^verbatim>\<open>argMax\<close> of the library: a scan that keeps the first index of the largest value.
\<close>

fun argMax_loop :: "real list \<Rightarrow> nat \<Rightarrow> real \<Rightarrow> nat \<Rightarrow> nat" where
  "argMax_loop [] j mx maxIndex = maxIndex"
| "argMax_loop (x # xs) j mx maxIndex =
     (if x > mx then argMax_loop xs (j + 1) x j else argMax_loop xs (j + 1) mx maxIndex)"

definition argMax :: "real list \<Rightarrow> nat" where
  "argMax xs = (case xs of [] \<Rightarrow> 0 | x # rest \<Rightarrow> argMax_loop rest 1 x 0)"

text \<open>
  The loop both branches of the sampler run over the probabilities:
  \<^verbatim>\<open>acc += p[i]; if (r <= acc)\<close> leaves with \<open>i\<close>. \<open>None\<close> is the loop running to
  its end.
\<close>

fun cdf_loop :: "real list \<Rightarrow> real \<Rightarrow> real \<Rightarrow> nat \<Rightarrow> nat option" where
  "cdf_loop [] r acc i = None"
| "cdf_loop (p # ps) r acc i =
     (if r \<le> acc + p then Some i else cdf_loop ps r (acc + p) (i + 1))"

text \<open>
  \<^verbatim>\<open>sampleFromLogits\<close>, with the value \<open>r\<close> of \<^verbatim>\<open>Math.random()\<close> as an argument.
  In the top-k branch \<^verbatim>\<open>selectedIndexInTopK\<close> starts at \<open>0\<close> and keeps that value
  when the loop ends without a hit; the other branch then returns
  \<^verbatim>\<open>probsData.length - 1\<close>. The result \<open>None\<close> is \<^verbatim>\<open>undefined\<close>, read from the
  index array out of its range.
\<close>

definition sampleFromLogits ::
  "(real list \<Rightarrow> real list) \<Rightarrow> real \<Rightarrow> real list \<Rightarrow> real \<Rightarrow> int \<Rightarrow> int option" where
  "sampleFromLogits softmax r logits temperature topK =
     (let adjusted = map (\<lambda>x. x / max temperature (1 / 100000)) logits in
      if 0 < topK \<and> topK < int (length logits) then
        (let values = fst (topk adjusted (nat topK));
             indices = snd (topk adjusted (nat topK));
             topKProbsData = softmax values;
             selectedIndexInTopK = (case cdf_loop topKProbsData r 0 0 of None \<Rightarrow> 0 | Some i \<Rightarrow> i)
         in if selectedIndexInTopK < length indices
            then Some (int (indices ! selectedIndexInTopK)) else None)
      else
        (let probsData = softmax adjusted in
         case cdf_loop probsData r 0 0 of
           Some i \<Rightarrow> Some (int i)
         | None \<Rightarrow> Some (int (length probsData) - 1)))"


text \<open>
  The float32 softmax of 25 equal values: \<open>exp 0 = 1\<close>, the sum is \<open>25\<close>, and each
  quotient is the float32 nearest to \<open>1/25\<close>, which is \<open>5368709 / 2^27\<close> and lies
  below \<open>1/25\<close>. Twenty-five of them add up, exactly in double precision, to
  \<open>134217725 / 2^27 < 1\<close>.
\<close>

definition softmax_f32_uniform25 :: "real list \<Rightarrow> real list" where
  "softmax_f32_uniform25 xs = map (\<lambda>x. 5368709 / 134217728) xs"

text \<open>A logit vector whose 25 largest entries are equal: ids 1 to 25.\<close>

definition skewed_logits :: "real list" where
  "skewed_logits = 0 # replicate 25 1"


section \<open>Model (services/layers.ts and the transformer module, kept in services/tokenizer.ts)\<close>

text \<open>
  \<^verbatim>\<open>Math.floor(dModel / numHeads)\<close> is a JavaScript number: dividing by zero gives
  \<^verbatim>\<open>Infinity\<close>, or \<^verbatim>\<open>NaN\<close> for \<open>0 / 0\<close>.
\<close>

datatype js_number = Num nat | PosInfinity | NaN

definition floor_div :: "nat \<Rightarrow> nat \<Rightarrow> js_number" where
  "floor_div a b = (if b = 0 then (if a = 0 then NaN else PosInfinity) else Num (a div b))"

text \<open>
  The configuration (types.ts); its sizes are natural numbers. The field
  \<^verbatim>\<open>vocabSize\<close> is \<open>cfg_vocabSize\<close> here, the tokenizer having a field of that name.
\<close>

record ModelConfig =
  cfg_vocabSize :: nat
  dModel :: nat
  numHeads :: nat
  dff :: nat
  numLayers :: nat
  maxLen :: nat
  dropoutRate :: real

text \<open>
  A float32 tensor is its shape and its flat values, as reals. The tensor library holds
  the variables it has created, each under a fresh id, and the position reached in its
  stream of normal samples; \<open>gauss\<close>, passed to the constructors, is that stream.
\<close>

record Tensor =
  shape :: "nat list"
  data :: "real list"

record tf_state =
  variables :: "nat \<rightharpoonup> Tensor"
  nextId :: nat
  rngPos :: nat

definition tf_init :: tf_state where
  "tf_init = \<lparr>variables = Map.empty, nextId = 0, rngPos = 0\<rparr>"

definition randomNormal ::
  "(nat \<Rightarrow> real) \<Rightarrow> nat list \<Rightarrow> real \<Rightarrow> real \<Rightarrow> tf_state \<Rightarrow> Tensor \<times> tf_state" where
  "randomNormal gauss shp mean stddev s =
     (\<lparr>shape = shp, data = map (\<lambda>i. mean + stddev * gauss (rngPos s + i)) [0..<prod_list shp]\<rparr>,
      s\<lparr>rngPos := rngPos s + prod_list shp\<rparr>)"

definition ones :: "nat list \<Rightarrow> Tensor" where
  "ones shp = \<lparr>shape = shp, data = replicate (prod_list shp) 1\<rparr>"

definition zeros :: "nat list \<Rightarrow> Tensor" where
  "zeros shp = \<lparr>shape = shp, data = replicate (prod_list shp) 0\<rparr>"

definition tf_variable :: "Tensor \<times> tf_state \<Rightarrow> nat \<times> tf_state" where
  "tf_variable ts =
     (nextId (snd ts),
      (snd ts)\<lparr>variables := (variables (snd ts))(nextId (snd ts) \<mapsto> fst ts),
               nextId := nextId (snd ts) + 1\<rparr>)"

text \<open>
  The layers hold the ids of their variables. Fields of a layer that share a name with
  a field of the configuration or of the model carry the prefix of the layer.
\<close>

record TokenEmbedding =
  emb_vocabSize :: nat
  emb_dModel :: nat
  emb_embedding :: nat

record MultiHeadAttention =
  mha_dModel :: nat
  mha_numHeads :: nat
  depth :: js_number
  wq :: nat
  wk :: nat
  wv :: nat
  wo :: nat

record FeedForward =
  w1 :: nat
  w2 :: nat

record LayerNormalization =
  gamma :: nat
  beta :: nat
  epsilon :: real

record EncoderBlock =
  mha :: MultiHeadAttention
  ffn :: FeedForward
  layernorm1 :: LayerNormalization
  layernorm2 :: LayerNormalization

record TransformerModel =
  embedding :: TokenEmbedding
  encoderBlocks :: "EncoderBlock list"
  finalLayer :: nat
  config :: ModelConfig

definition TokenEmbedding_new ::
  "(nat \<Rightarrow> real) \<Rightarrow> nat \<Rightarrow> nat \<Rightarrow> tf_state \<Rightarrow> TokenEmbedding \<times> tf_state" where
  "TokenEmbedding_new gauss vs dm s =
     (let e = tf_variable (randomNormal gauss [vs, dm] 0 (2 / 100) s)
      in (\<lparr>emb_vocabSize = vs, emb_dModel = dm, emb_embedding = fst e\<rparr>, snd e))"

definition MultiHeadAttention_new ::
  "(nat \<Rightarrow> real) \<Rightarrow> nat \<Rightarrow> nat \<Rightarrow> tf_state \<Rightarrow> MultiHeadAttention \<times> tf_state" where
  "MultiHeadAttention_new gauss dm nh s =
     (let q = tf_variable (randomNormal gauss [dm, dm] 0 (2 / 100) s);
          k = tf_variable (randomNormal gauss [dm, dm] 0 (2 / 100) (snd q));
          v = tf_variable (randomNormal gauss [dm, dm] 0 (2 / 100) (snd k));
          w = tf_variable (randomNormal gauss [dm, dm] 0 (2 / 100) (snd v))
      in (\<lparr>mha_dModel = dm, mha_numHeads = nh, depth = floor_div dm nh,
            wq = fst q, wk = fst k, wv = fst v, wo = fst w\<rparr>, snd w))"

definition FeedForward_new ::
  "(nat \<Rightarrow> real) \<Rightarrow> nat \<Rightarrow> nat \<Rightarrow> tf_state \<Rightarrow> FeedForward \<times> tf_state" where
  "FeedForward_new gauss dm df s =
     (let a = tf_variable (randomNormal gauss [dm, df] 0 (2 / 100) s);
          b = tf_variable (randomNormal gauss [df, dm] 0 (2 / 100) (snd a))
      in (\<lparr>w1 = fst a, w2 = fst b\<rparr>, snd b))"

definition LayerNormalization_new :: "nat \<Rightarrow> tf_state \<Rightarrow> LayerNormalization \<times> tf_state" where
  "LayerNormalization_new dm s =
     (let g = tf_variable (ones [dm], s);
          b = tf_variable (zeros [dm], snd g)
      in (\<lparr>gamma = fst g, beta = fst b, epsilon = 1 / 1000000\<rparr>, snd b))"

definition EncoderBlock_new ::
  "(nat \<Rightarrow> real) \<Rightarrow> nat \<Rightarrow> nat \<Rightarrow> nat \<Rightarrow> tf_state \<Rightarrow> EncoderBlock \<times> tf_state" where
  "EncoderBlock_new gauss dm nh df s =
     (let a = MultiHeadAttention_new gauss dm nh s;
          f = FeedForward_new gauss dm df (snd a);
          l1 = LayerNormalization_new dm (snd f);
          l2 = LayerNormalization_new dm (snd l1)
      in (\<lparr>mha = fst a, ffn = fst f, layernorm1 = fst l1, layernorm2 = fst l2\<rparr>, snd l2))"

text \<open>The loop \<^verbatim>\<open>for (let i = 0; i < config.numLayers; i++)\<close> of the constructor.\<close>

function blocks_loop ::
  "(nat \<Rightarrow> real) \<Rightarrow> ModelConfig \<Rightarrow> nat \<Rightarrow> EncoderBlock list \<times> tf_state \<Rightarrow> EncoderBlock list \<times> tf_state" where
  "blocks_loop gauss cfg i bs =
     (if i < numLayers cfg then
        (let b = EncoderBlock_new gauss (dModel cfg) (numHeads cfg) (dff cfg) (snd bs)
         in blocks_loop gauss cfg (i + 1) (fst bs @ [fst b], snd b))
      else bs)"
  by pat_completeness auto
termination
  by (relation "measure (\<lambda>(gauss, cfg, i, bs). numLayers cfg - i)") auto

declare blocks_loop.simps [simp del]

text \<open>
  The constructor of \<^verbatim>\<open>TransformerModel\<close>. Neither it nor the constructors of the
  layers check the configuration.
\<close>

definition TransformerModel_new ::
  "(nat \<Rightarrow> real) \<Rightarrow> ModelConfig \<Rightarrow> tf_state \<Rightarrow> TransformerModel \<times> tf_state" where
  "TransformerModel_new gauss cfg s =
     (let e = TokenEmbedding_new gauss (cfg_vocabSize cfg) (dModel cfg) s;
          bs = blocks_loop gauss cfg 0 ([], snd e);
          f = tf_variable (randomNormal gauss [dModel cfg, cfg_vocabSize cfg] 0 1 (snd bs))
      in (\<lparr>embedding = fst e, encoderBlocks = fst bs, finalLayer = fst f, config = cfg\<rparr>, snd f))"

text \<open>The decimal numeral of \<open>i\<close> in the template \<^verbatim>\<open>`blk${i}`\<close>.\<close>

fun string_of_nat :: "nat \<Rightarrow> string" where
  "string_of_nat n =
     (if n < 10 then [char_of (48 + n)]
      else string_of_nat (n div 10) @ [char_of (48 + n mod 10)])"

declare string_of_nat.simps [simp del]

text \<open>
  \<^verbatim>\<open>getTrainableVariables\<close>: an object from names to variables. An assignment
  \<^verbatim>\<open>vars[name] = v\<close> replaces the value of a property that exists and adds one that
  does not.
\<close>

fun forEach_block ::
  "EncoderBlock list \<Rightarrow> nat \<Rightarrow> (string \<times> nat) list \<Rightarrow> (string \<times> nat) list" where
  "forEach_block [] i vars = vars"
| "forEach_block (block # rest) i vars =
     (let prefix = ''blk'' @ string_of_nat i;
          v1 = AList.update (prefix @ ''_mha_wq'') (wq (mha block)) vars;
          v2 = AList.update (prefix @ ''_mha_wk'') (wk (mha block)) v1;
          v3 = AList.update (prefix @ ''_mha_wv'') (wv (mha block)) v2;
          v4 = AList.update (prefix @ ''_mha_wo'') (wo (mha block)) v3;
          v5 = AList.update (prefix @ ''_ffn_w1'') (w1 (ffn block)) v4;
          v6 = AList.update (prefix @ ''_ffn_w2'') (w2 (ffn block)) v5;
          v7 = AList.update (prefix @ ''_ln1_g'') (gamma (layernorm1 block)) v6;
          v8 = AList.update (prefix @ ''_ln1_b'') (beta (layernorm1 block)) v7;
          v9 = AList.update (prefix @ ''_ln2_g'') (gamma (layernorm2 block)) v8;
          v10 = AList.update (prefix @ ''_ln2_b'') (beta (layernorm2 block)) v9
      in forEach_block rest (i + 1) v10)"

definition getTrainableVariables :: "TransformerModel \<Rightarrow> (string \<times> nat) list" where
  "getTrainableVariables m =
     (let v0 = AList.update ''emb_embedding'' (emb_embedding (embedding m)) [];
          v1 = forEach_block (encoderBlocks m) 0 v0
      in AList.update ''final_proj'' (finalLayer m) v1)"

text \<open>A sample stream and a configuration with \<open>dModel = 3\<close> and \<open>numHeads = 2\<close>.\<close>

definition zero_noise :: "nat \<Rightarrow> real" where
  "zero_noise i = 0"

definition cfg0 :: ModelConfig where
  "cfg0 = \<lparr>cfg_vocabSize = 2, dModel = 3, numHeads = 2, dff = 1, numLayers = 1, maxLen = 4, dropoutRate = 1 / 10\<rparr>"

text \<open>
  \<^verbatim>\<open>forward\<close> runs on the tensor library in float32. It is the parameter \<open>forward\<close> of
  \<^verbatim>\<open>predict\<close>: from the model, the variables and a batch of id sequences to the logits
  \<open>[batch, seqLen, vocabSize]\<close> and the attention weights of the last block
  (\<^verbatim>\<open>null\<close>, here \<open>None\<close>, for a model without blocks), or to the error it throws.
\<close>

type_synonym forward_result = "real list list list \<times> real list list list list option"

definition predict ::
  "(TransformerModel \<Rightarrow> tf_state \<Rightarrow> nat list list \<Rightarrow> bool \<Rightarrow> js_error + forward_result) \<Rightarrow>
   TransformerModel \<Rightarrow> tf_state \<Rightarrow> nat list \<Rightarrow> js_error + (nat \<times> real list list list list)" where
  "predict forward m s tokenIds =
     (if length tokenIds = 0 then Inr (0, [])
      else
        case forward m s [tokenIds] False of
          Inl e \<Rightarrow> Inl e
        | Inr (logits, attentionWeights) \<Rightarrow>
            if length logits = 1 \<and> length tokenIds \<le> length (hd logits)
            then
              (let lastTokenLogits = hd logits ! (length tokenIds - 1);
                   predictedId = argMax lastTokenLogits;
                   attnData = (case attentionWeights of Some a \<Rightarrow> a | None \<Rightarrow> [])
               in Inr (predictedId, attnData))
            else Inl InvalidTensorShape)"

section \<open>Persistence (services/persistence.ts)\<close>

record WeightSpec =
  spec_shape :: "nat list"
  spec_data :: "real list"

record SavedModelState =
  saved_config :: ModelConfig
  saved_tokenizer :: SerializedTokenizer
  weights :: "(string \<times> WeightSpec) list"
  timestamp :: nat

text \<open>
  The loop of \<^verbatim>\<open>exportModelState\<close> over \<^verbatim>\<open>Object.entries(vars)\<close>;
  \<^verbatim>\<open>variable.data()\<close> fails for a variable the library no longer holds.
  \<^verbatim>\<open>Array.from\<close> of the \<^verbatim>\<open>Float32Array\<close> is exact.
\<close>

fun export_loop ::
  "(string \<times> nat) list \<Rightarrow> tf_state \<Rightarrow> (string \<times> WeightSpec) list \<Rightarrow>
   js_error + (string \<times> WeightSpec) list" where
  "export_loop [] s ws = Inr ws"
| "export_loop ((name, variable) # rest) s ws =
     (case variables s variable of
        None \<Rightarrow> Inl TensorDisposed
      | Some t \<Rightarrow>
          export_loop rest s
            (AList.update name \<lparr>spec_shape = shape t, spec_data = data t\<rparr> ws))"

text \<open>\<open>now\<close> is the value of \<^verbatim>\<open>Date.now()\<close>.\<close>

definition exportModelState ::
  "TransformerModel \<Rightarrow> SimpleTokenizer \<Rightarrow> nat \<Rightarrow> tf_state \<Rightarrow> js_error + SavedModelState" where
  "exportModelState m tokenizer now s =
     (let vars = getTrainableVariables m in
      case export_loop (Object_entries vars) s [] of
        Inl e \<Rightarrow> Inl e
      | Inr ws \<Rightarrow>
          Inr \<lparr>saved_config = config m,
               saved_tokenizer =
                 \<lparr>charToId = Object_fromEntries (vocab tokenizer),
                  idToChar = Object_fromEntries (inverseVocab tokenizer),
                  ser_vocabSize = vocabSize tokenizer\<rparr>,
               weights = ws,
               timestamp = now\<rparr>)"

text \<open>
  \<^verbatim>\<open>tf.tensor(values, shape)\<close> throws unless the number of values is the size of the
  shape. \<^verbatim>\<open>v.assign(tensor)\<close> replaces the values of a variable.
\<close>

definition tf_tensor :: "real list \<Rightarrow> nat list \<Rightarrow> js_error + Tensor" where
  "tf_tensor values shp =
     (if length values = prod_list shp then Inr \<lparr>shape = shp, data = values\<rparr>
      else Inl TensorSizeMismatch)"

definition assign :: "tf_state \<Rightarrow> nat \<Rightarrow> Tensor \<Rightarrow> tf_state" where
  "assign s v t = s\<lparr>variables := (variables s)(v \<mapsto> t)\<rparr>"

text \<open>
  \<^verbatim>\<open>vars[name]\<close> for a name that \<^verbatim>\<open>vars\<close> does not own finds the properties that
  every object inherits; they are truthy and have no \<^verbatim>\<open>shape\<close>, so such a name
  takes the shape-mismatch path.
\<close>

definition Object_prototype_keys :: "string list" where
  "Object_prototype_keys =
     [''constructor'', ''__defineGetter__'', ''__defineSetter__'', ''hasOwnProperty'',
      ''__lookupGetter__'', ''__lookupSetter__'', ''isPrototypeOf'', ''propertyIsEnumerable'',
      ''toString'', ''valueOf'', ''__proto__'', ''toLocaleString'']"

datatype import_warning = NoVariable string | ShapeMismatch string

text \<open>
  The loop of \<^verbatim>\<open>importModelState\<close> over \<^verbatim>\<open>Object.entries(state.weights)\<close>. It
  yields the error thrown, if any, the variables as the loop left them and the
  warnings written to the console.
\<close>

fun import_loop ::
  "(string \<times> nat) list \<Rightarrow> (string \<times> WeightSpec) list \<Rightarrow> tf_state \<Rightarrow> import_warning list \<Rightarrow>
   js_error option \<times> tf_state \<times> import_warning list" where
  "import_loop vars [] s warns = (None, s, warns)"
| "import_loop vars ((name, spec) # rest) s warns =
     (case map_of vars name of
        None \<Rightarrow>
          if name \<in> set Object_prototype_keys
          then import_loop vars rest s (warns @ [ShapeMismatch name])
          else import_loop vars rest s (warns @ [NoVariable name])
      | Some v \<Rightarrow>
          (case variables s v of
             None \<Rightarrow> (Some TensorDisposed, s, warns)
           | Some t \<Rightarrow>
               if shape t \<noteq> spec_shape spec
               then import_loop vars rest s (warns @ [ShapeMismatch name])
               else
                 (case tf_tensor (spec_data spec) (spec_shape spec) of
                    Inl e \<Rightarrow> (Some e, s, warns)
                  | Inr tensor \<Rightarrow> import_loop vars rest (assign s v tensor) warns)))"

definition importModelState ::
  "TransformerModel \<Rightarrow> SavedModelState \<Rightarrow> tf_state \<Rightarrow>
   js_error option \<times> tf_state \<times> import_warning list" where
  "importModelState m state s =
     import_loop (getTrainableVariables m) (Object_entries (weights state)) s []"

definition importTokenizer :: "SerializedTokenizer \<Rightarrow> SimpleTokenizer" where
  "importTokenizer serialized = SimpleTokenizer_new (Serialized serialized)"

section \<open>Invariants of the containers and of the tensor library\<close>

text \<open>
  The keys of a \<^verbatim>\<open>Map\<close> and the property names of an object are distinct.
\<close>

definition Map_ok :: "('k, 'v) js_map \<Rightarrow> bool" where
  "Map_ok m = distinct (map fst m)"


text \<open>
  Every variable of the model is held by the library, and every tensor of the library
  has as many values as its shape has elements.
\<close>

definition variables_ok :: "TransformerModel \<Rightarrow> tf_state \<Rightarrow> bool" where
  "variables_ok m s =
     list_all (\<lambda>p. case variables s (snd p) of
                      None \<Rightarrow> False
                    | Some t \<Rightarrow> length (data t) = prod_list (shape t))
       (getTrainableVariables m)"





text \<open>An entry as \<^verbatim>\<open>exportModelState\<close> writes it: the shape and values of a variable.\<close>

definition exported :: "(string \<times> nat) list \<Rightarrow> tf_state \<Rightarrow> string \<times> WeightSpec \<Rightarrow> bool" where
  "exported vars s e \<longleftrightarrow>
     (\<exists>v t. map_of vars (fst e) = Some v \<and> variables s v = Some t
        \<and> length (data t) = prod_list (shape t)
        \<and> snd e = \<lparr>spec_shape = shape t, spec_data = data t\<rparr>)"

text \<open>
  The model built for \<open>cfg0\<close> and the variables the library then holds; a saved state
  with an unknown name, an entry of another shape and two entries that fit; and a
  saved state whose first entry has the shape of the embedding table but a single
  value.
\<close>

definition m0 :: TransformerModel where
  "m0 = fst (TransformerModel_new zero_noise cfg0 tf_init)"

definition s0 :: tf_state where
  "s0 = snd (TransformerModel_new zero_noise cfg0 tf_init)"



text \<open>
  A tensor with as many values as its shape has elements; a library state that holds
  such a tensor under every id from \<open>a\<close> up to the next free one; and the ids of the
  ten variables of a block, in the order in which the constructors create them.
\<close>

definition well_sized :: "Tensor \<Rightarrow> bool" where
  "well_sized t \<longleftrightarrow> length (data t) = prod_list (shape t)"

definition held :: "tf_state \<Rightarrow> nat \<Rightarrow> bool" where
  "held s a \<longleftrightarrow>
     a \<le> nextId s
     \<and> (\<forall>v. a \<le> v \<and> v < nextId s \<longrightarrow> (\<exists>t. variables s v = Some t \<and> well_sized t))"

definition block_ids :: "EncoderBlock \<Rightarrow> nat list" where
  "block_ids b =
     [wq (mha b), wk (mha b), wv (mha b), wo (mha b), w1 (ffn b), w2 (ffn b),
      gamma (layernorm1 b), beta (layernorm1 b), gamma (layernorm2 b), beta (layernorm2 b)]"

section \<open>Properties of the tokenizer\<close>

lemma forEach_char_vocab_other:
  "ch \<notin> set chs \<Longrightarrow>
     Map_get (vocab (snd (forEach_char chs idx t))) ch = Map_get (vocab t) ch"
  by (induction chs idx t rule: forEach_char.induct)
     (auto simp: Map_get_def Map_set_def update_conv')

lemma forEach_char_inverse_below:
  "j < idx \<Longrightarrow>
     Map_get (inverseVocab (snd (forEach_char chs idx t))) j = Map_get (inverseVocab t) j"
  by (induction chs idx t rule: forEach_char.induct)
     (auto simp: Map_get_def Map_set_def update_conv')

lemma forEach_char_assigned:
  "distinct chs \<Longrightarrow> ch \<in> set chs \<Longrightarrow>
     \<exists>j\<ge>idx. Map_get (vocab (snd (forEach_char chs idx t))) ch = Some j
           \<and> Map_get (inverseVocab (snd (forEach_char chs idx t))) j = Some ch"
proof (induction chs idx t rule: forEach_char.induct)
  case (1 idx t)
  then show ?case by simp
next
  case (2 c chs idx t)
  let ?t = "t\<lparr>vocab := Map_set (vocab t) c idx,
               inverseVocab := Map_set (inverseVocab t) idx c\<rparr>"
  show ?case
  proof (cases "ch = c")
    case True
    with 2 have notin: "ch \<notin> set chs" by simp
    have "Map_get (vocab (snd (forEach_char chs (idx + 1) ?t))) ch = Some idx"
      using forEach_char_vocab_other [OF notin] True
      by (simp add: Map_get_def Map_set_def update_conv')
    moreover have "Map_get (inverseVocab (snd (forEach_char chs (idx + 1) ?t))) idx = Some ch"
      using forEach_char_inverse_below [of idx "idx + 1" chs ?t] True
      by (simp add: Map_get_def Map_set_def update_conv')
    ultimately show ?thesis by auto
  next
    case False
    with 2 have "distinct chs" "ch \<in> set chs" by auto
    from "2.IH" [OF this] obtain j where
      "j \<ge> idx + 1"
      "Map_get (vocab (snd (forEach_char chs (idx + 1) ?t))) ch = Some j"
      "Map_get (inverseVocab (snd (forEach_char chs (idx + 1) ?t))) j = Some ch"
      by blast
    then show ?thesis by (intro exI [of _ j]) simp
  qed
qed

lemma corpus_chars:
  "[c] \<in> set (Set_from (split_chars s)) \<longleftrightarrow> c \<in> set s"
  "distinct (sort (Set_from (split_chars s)))"
  by (auto simp: Set_from_def split_chars_def)

lemma encode_known:
  assumes "c \<in> set corpus"
  shows "\<exists>j\<ge>2. Map_get (vocab (SimpleTokenizer_new (Corpus corpus))) [c] = Some j
           \<and> Map_get (inverseVocab (SimpleTokenizer_new (Corpus corpus))) j = Some [c]"
proof -
  have "[c] \<in> set (sort (Set_from (split_chars corpus)))"
    using assms by (simp add: corpus_chars)
  from forEach_char_assigned [OF corpus_chars(2) this]
  show ?thesis by (simp add: SimpleTokenizer_new_def Let_def)
qed

lemma encode_unknown:
  assumes "c \<notin> set corpus"
  shows "Map_get (vocab (SimpleTokenizer_new (Corpus corpus))) [c] = None"
proof -
  have "[c] \<notin> set (sort (Set_from (split_chars corpus)))"
    using assms by (simp add: corpus_chars)
  from forEach_char_vocab_other [OF this]
  show ?thesis
    by (simp add: SimpleTokenizer_new_def Let_def Map_get_def Map_set_def update_conv')
qed

lemma reserved_ids:
  "Map_get (inverseVocab (SimpleTokenizer_new (Corpus corpus))) 0 = Some ''<PAD>''"
  "Map_get (inverseVocab (SimpleTokenizer_new (Corpus corpus))) 1 = Some ''<UNK>''"
  using forEach_char_inverse_below [of 0 2] forEach_char_inverse_below [of 1 2]
  by (simp_all add: SimpleTokenizer_new_def Let_def Map_get_def Map_set_def update_conv')

lemma decode_encode_char:
  "decode (SimpleTokenizer_new (Corpus corpus))
     (encode (SimpleTokenizer_new (Corpus corpus)) [c])
   = (if c \<in> set corpus then [c] else ''<UNK>'')"
proof (cases "c \<in> set corpus")
  case True
  from encode_known [OF this] show ?thesis
    using True by (auto simp: encode_def decode_def split_chars_def)
next
  case False
  from encode_unknown [OF this] reserved_ids(2) [of corpus] show ?thesis
    using False by (simp add: encode_def decode_def split_chars_def)
qed

lemma encode_append: "encode t (xs @ ys) = encode t xs @ encode t ys"
  by (simp add: encode_def split_chars_def)

lemma decode_append: "decode t (xs @ ys) = decode t xs @ decode t ys"
  by (simp add: decode_def)

lemma decode_encode_general:
  "decode (SimpleTokenizer_new (Corpus corpus))
     (encode (SimpleTokenizer_new (Corpus corpus)) s)
   = concat (map (\<lambda>c. if c \<in> set corpus then [c] else ''<UNK>'') s)"
proof (induction s)
  case Nil
  show ?case by (simp add: encode_def decode_def split_chars_def)
next
  case (Cons c s)
  have "encode (SimpleTokenizer_new (Corpus corpus)) (c # s)
        = encode (SimpleTokenizer_new (Corpus corpus)) [c]
          @ encode (SimpleTokenizer_new (Corpus corpus)) s"
    using encode_append [of _ "[c]" s] by simp
  then show ?case
    using Cons decode_encode_char [of corpus c] by (simp add: decode_append)
qed

text \<open>
  C4. For every tokenizer built from a corpus and every string made only of characters
  that occur in that corpus, decoding the encoding of the string gives the string back.
\<close>

theorem tokenizer_round_trip:
  assumes "set s \<subseteq> set corpus"
  shows "decode (SimpleTokenizer_new (Corpus corpus))
           (encode (SimpleTokenizer_new (Corpus corpus)) s) = s"
proof -
  have "concat (map (\<lambda>c. if c \<in> set corpus then [c] else ''<UNK>'') s) = s"
    using assms by (induction s) auto
  then show ?thesis by (simp add: decode_encode_general)
qed

theorem tokenizer_round_trip_witness:
  "set ''abba'' \<subseteq> set ''cab''
   \<and> decode (SimpleTokenizer_new (Corpus ''cab''))
        (encode (SimpleTokenizer_new (Corpus ''cab'')) ''abba'') = ''abba''"
  using tokenizer_round_trip [of "''abba''" "''cab''"] by simp

text \<open>
  C10. For every tokenizer built from a corpus, id 0 decodes to the five-character
  string \<^verbatim>\<open><PAD>\<close> and id 1 to the five-character string \<^verbatim>\<open><UNK>\<close>, and decoding
  the encoding of a string replaces each character outside the corpus by the text
  \<^verbatim>\<open><UNK>\<close> and keeps every other character.
\<close>

theorem reserved_ids_decode_to_markers:
  "decode (SimpleTokenizer_new (Corpus corpus)) [0] = ''<PAD>''
   \<and> decode (SimpleTokenizer_new (Corpus corpus)) [1] = ''<UNK>''
   \<and> length (decode (SimpleTokenizer_new (Corpus corpus)) [0]) = 5
   \<and> length (decode (SimpleTokenizer_new (Corpus corpus)) [1]) = 5
   \<and> decode (SimpleTokenizer_new (Corpus corpus))
        (encode (SimpleTokenizer_new (Corpus corpus)) s)
      = concat (map (\<lambda>c. if c \<in> set corpus then [c] else ''<UNK>'') s)"
proof -
  have pad: "decode (SimpleTokenizer_new (Corpus corpus)) [0] = ''<PAD>''"
    by (simp add: decode_def reserved_ids)
  have unk: "decode (SimpleTokenizer_new (Corpus corpus)) [1] = ''<UNK>''"
    using reserved_ids(2) [of corpus] by (simp add: decode_def)
  show ?thesis
    unfolding pad unk by (simp add: decode_encode_general)
qed

section \<open>Properties of the dataset and of training\<close>

lemma windows_loop_eq:
  "windows_loop ids sl i acc =
     (fst acc @ map (\<lambda>j. slice ids j (j + sl)) [i..<length ids - sl],
      snd acc @ map (\<lambda>j. slice ids (j + 1) (j + sl + 1)) [i..<length ids - sl])"
proof (induction ids sl i acc rule: windows_loop.induct)
  case (1 ids sl i acc)
  show ?case
  proof (cases "i + sl + 1 \<le> length ids")
    case True
    then have "[i..<length ids - sl] = i # [i + 1..<length ids - sl]"
      by (simp add: upt_conv_Cons)
    with True "1.IH" show ?thesis
      by (subst windows_loop.simps) simp
  next
    case False
    then have "[i..<length ids - sl] = []" by simp
    with False show ?thesis
      by (subst windows_loop.simps) simp
  qed
qed

lemma length_encode: "length (encode t s) = length s"
  by (simp add: encode_def split_chars_def)

lemma window_full:
  "j < length ids - sl \<Longrightarrow> length (slice ids j (j + sl)) = sl"
  "j < length ids - sl \<Longrightarrow> length (slice ids (j + 1) (j + sl + 1)) = sl"
  by (auto simp: slice_def)

lemma tensor2d_windows:
  assumes "n \<le> length ids - sl"
  shows "tensor2d (slice (map (\<lambda>j. slice ids j (j + sl)) [0..<length ids - sl]) 0 n) n sl
         = Inr (take n (map (\<lambda>j. slice ids j (j + sl)) [0..<length ids - sl]))"
    and "tensor2d (slice (map (\<lambda>j. slice ids (j + 1) (j + sl + 1)) [0..<length ids - sl]) 0 n) n sl
         = Inr (take n (map (\<lambda>j. slice ids (j + 1) (j + sl + 1)) [0..<length ids - sl]))"
proof -
  have a: "list_all (\<lambda>row. length row = sl)
             (take n (map (\<lambda>j. slice ids j (j + sl)) [0..<length ids - sl]))"
    by (auto simp: list_all_iff window_full dest!: in_set_takeD)
  have b: "list_all (\<lambda>row. length row = sl)
             (take n (map (\<lambda>j. slice ids (j + 1) (j + sl + 1)) [0..<length ids - sl]))"
    by (auto simp: list_all_iff dest!: in_set_takeD) (simp add: slice_def)
  show "tensor2d (slice (map (\<lambda>j. slice ids j (j + sl)) [0..<length ids - sl]) 0 n) n sl
         = Inr (take n (map (\<lambda>j. slice ids j (j + sl)) [0..<length ids - sl]))"
    using assms a by (simp add: tensor2d_def slice_def [of _ 0 n])
  show "tensor2d (slice (map (\<lambda>j. slice ids (j + 1) (j + sl + 1)) [0..<length ids - sl]) 0 n) n sl
         = Inr (take n (map (\<lambda>j. slice ids (j + 1) (j + sl + 1)) [0..<length ids - sl]))"
    using assms b by (simp add: tensor2d_def slice_def [of _ 0 n])
qed

lemma buildDataset_eq:
  "buildDataset text tokenizer sl bs =
     (if bs = 0 then Inl InvalidTensorShape
      else if ((length text - sl) div bs) * bs = 0 then Inl TextTooShort
      else Inr \<lparr>inputs = take (((length text - sl) div bs) * bs)
                          (map (\<lambda>j. slice (encode tokenizer text) j (j + sl)) [0..<length text - sl]),
                targets = take (((length text - sl) div bs) * bs)
                          (map (\<lambda>j. slice (encode tokenizer text) (j + 1) (j + sl + 1))
                             [0..<length text - sl])\<rparr>)"
proof -
  let ?ids = "encode tokenizer text"
  let ?n = "((length ?ids - sl) div bs) * bs"
  have le: "?n \<le> length ?ids - sl" by simp
  show ?thesis
    using tensor2d_windows [OF le]
    by (simp add: buildDataset_def Let_def windows_loop_eq length_encode)
qed

text \<open>
  C5. For a corpus of length \<open>C\<close>, sequence length \<open>L\<close> and batch size \<open>B\<close>, the loop
  of \<^verbatim>\<open>buildDataset\<close> builds exactly \<open>max(0, C - L)\<close> windows, the \<open>i\<close>-th being the
  input \<open>ids[i..i+L)\<close> and the target \<open>ids[i+1..i+L+1)\<close>; a dataset that is returned
  has \<open>floor((C - L) / B) * B\<close> samples, the largest multiple of \<open>B\<close> not above the
  window count, and they are the first windows, the remainder being dropped. A dataset
  is returned exactly when \<open>0 < B \<le> C - L\<close>.
\<close>

theorem dataset_windowing:
  "int (length (fst (windows_loop (encode tokenizer text) sl 0 ([], []))))
     = max 0 (int (length text) - int sl)
   \<and> length (snd (windows_loop (encode tokenizer text) sl 0 ([], []))) = length text - sl
   \<and> (\<forall>i < length text - sl.
        fst (windows_loop (encode tokenizer text) sl 0 ([], [])) ! i
          = slice (encode tokenizer text) i (i + sl)
      \<and> snd (windows_loop (encode tokenizer text) sl 0 ([], [])) ! i
          = slice (encode tokenizer text) (i + 1) (i + sl + 1))
   \<and> (\<forall>ds. buildDataset text tokenizer sl bs = Inr ds \<longrightarrow>
        length (inputs ds) = ((length text - sl) div bs) * bs
      \<and> length (targets ds) = ((length text - sl) div bs) * bs
      \<and> bs dvd length (inputs ds)
      \<and> length (inputs ds) \<le> length text - sl
      \<and> length text - sl < length (inputs ds) + bs
      \<and> inputs ds = take (length (inputs ds))
                       (fst (windows_loop (encode tokenizer text) sl 0 ([], [])))
      \<and> targets ds = take (length (targets ds))
                       (snd (windows_loop (encode tokenizer text) sl 0 ([], []))))
   \<and> ((\<exists>ds. buildDataset text tokenizer sl bs = Inr ds) \<longleftrightarrow> 0 < bs \<and> bs \<le> length text - sl)"
proof -
  let ?w = "length text - sl"
  let ?n = "(?w div bs) * bs"
  have raw: "windows_loop (encode tokenizer text) sl 0 ([], []) =
      (map (\<lambda>j. slice (encode tokenizer text) j (j + sl)) [0..<?w],
       map (\<lambda>j. slice (encode tokenizer text) (j + 1) (j + sl + 1)) [0..<?w])"
    by (simp add: windows_loop_eq length_encode)
  have c1: "int (length (fst (windows_loop (encode tokenizer text) sl 0 ([], []))))
     = max 0 (int (length text) - int sl)"
    unfolding raw by simp
  have c2: "length (snd (windows_loop (encode tokenizer text) sl 0 ([], []))) = ?w"
    unfolding raw by simp
  have c3: "\<forall>i < ?w.
        fst (windows_loop (encode tokenizer text) sl 0 ([], [])) ! i
          = slice (encode tokenizer text) i (i + sl)
      \<and> snd (windows_loop (encode tokenizer text) sl 0 ([], [])) ! i
          = slice (encode tokenizer text) (i + 1) (i + sl + 1)"
    unfolding raw by simp
  have nle: "?n \<le> ?w" by simp
  have c4: "\<forall>ds. buildDataset text tokenizer sl bs = Inr ds \<longrightarrow>
        length (inputs ds) = ?n
      \<and> length (targets ds) = ?n
      \<and> bs dvd length (inputs ds)
      \<and> length (inputs ds) \<le> ?w
      \<and> ?w < length (inputs ds) + bs
      \<and> inputs ds = take (length (inputs ds))
                       (fst (windows_loop (encode tokenizer text) sl 0 ([], [])))
      \<and> targets ds = take (length (targets ds))
                       (snd (windows_loop (encode tokenizer text) sl 0 ([], [])))"
  proof (intro allI impI)
    fix ds
    assume ok: "buildDataset text tokenizer sl bs = Inr ds"
    then have pos: "0 < bs" and nz: "?n \<noteq> 0"
      by (auto simp: buildDataset_eq split: if_splits)
    from ok pos nz have ds: "ds = \<lparr>inputs = take ?n (map (\<lambda>j. slice (encode tokenizer text) j (j + sl)) [0..<?w]),
                targets = take ?n (map (\<lambda>j. slice (encode tokenizer text) (j + 1) (j + sl + 1)) [0..<?w])\<rparr>"
      by (simp add: buildDataset_eq)
    have len: "length (inputs ds) = ?n" "length (targets ds) = ?n"
      using nle by (simp_all add: ds)
    have lt: "?w < ?n + bs"
      using pos dividend_less_div_times [of bs ?w] by (simp add: ac_simps)
    show "length (inputs ds) = ?n
      \<and> length (targets ds) = ?n
      \<and> bs dvd length (inputs ds)
      \<and> length (inputs ds) \<le> ?w
      \<and> ?w < length (inputs ds) + bs
      \<and> inputs ds = take (length (inputs ds))
                       (fst (windows_loop (encode tokenizer text) sl 0 ([], [])))
      \<and> targets ds = take (length (targets ds))
                       (snd (windows_loop (encode tokenizer text) sl 0 ([], [])))"
      unfolding len raw using nle lt by (simp add: ds)
  qed
  have c5: "(\<exists>ds. buildDataset text tokenizer sl bs = Inr ds) \<longleftrightarrow> 0 < bs \<and> bs \<le> ?w"
  proof (cases "bs = 0")
    case True
    then show ?thesis by (simp add: buildDataset_eq)
  next
    case False
    then have "?n = 0 \<longleftrightarrow> ?w < bs" by (simp add: div_eq_0_iff)
    with False show ?thesis by (auto simp: buildDataset_eq)
  qed
  from c1 c2 c3 c4 c5 show ?thesis by blast
qed

theorem dataset_windowing_witness:
  "(\<exists>ds. buildDataset ''HELLO!'' (SimpleTokenizer_new (Corpus ''HELLO'')) 3 2 = Inr ds
        \<and> length (inputs ds) = 2 \<and> length (targets ds) = 2)
   \<and> length (fst (windows_loop (encode (SimpleTokenizer_new (Corpus ''HELLO'')) ''HELLO!'') 3 0 ([], []))) = 3"
proof -
  note w = dataset_windowing [of "SimpleTokenizer_new (Corpus ''HELLO'')" "''HELLO!''" 3 2]
  from w obtain ds where
    ds: "buildDataset ''HELLO!'' (SimpleTokenizer_new (Corpus ''HELLO'')) 3 2 = Inr ds"
    by auto
  with w have "length (inputs ds) = 2" "length (targets ds) = 2"
    by simp_all
  moreover from w have
    "length (fst (windows_loop (encode (SimpleTokenizer_new (Corpus ''HELLO'')) ''HELLO!'') 3 0 ([], []))) = 3"
    by simp
  ultimately show ?thesis using ds by blast
qed

text \<open>
  C6. When dataset construction fails, \<^verbatim>\<open>trainModel\<close> logs the error and returns
  without an error of its own and with the parameter tensors as they were: no
  optimisation step has run. Construction fails with the message of
  \<^verbatim>\<open>buildDataset\<close> when the corpus is shorter than \<open>seqLen + 1\<close> or the batch size
  exceeds the number of windows.
\<close>

theorem failed_dataset_leaves_parameters:
  "(\<forall>e. buildDataset corpus tokenizer (seqLen tc) (batchSize tc) = Inl e \<longrightarrow>
       trainModel adam train_step w tokenizer corpus tc
         = (None, w, [PreparingDataset (length corpus), ErrorMessage e]))
   \<and> (0 < batchSize tc
        \<and> (length corpus < seqLen tc + 1 \<or> length corpus - seqLen tc < batchSize tc) \<longrightarrow>
       buildDataset corpus tokenizer (seqLen tc) (batchSize tc) = Inl TextTooShort)"
proof -
  have "0 < batchSize tc \<Longrightarrow> length corpus - seqLen tc < batchSize tc \<Longrightarrow>
     buildDataset corpus tokenizer (seqLen tc) (batchSize tc) = Inl TextTooShort"
    by (simp add: buildDataset_eq)
  moreover have "length corpus < seqLen tc + 1 \<Longrightarrow> 0 < batchSize tc \<Longrightarrow>
      length corpus - seqLen tc < batchSize tc"
    by simp
  ultimately show ?thesis
    by (auto simp: trainModel_def)
qed

theorem failed_dataset_leaves_parameters_witness:
  "trainModel (\<lambda>lr. lr) (\<lambda>opt w i t. Inr (opt, map (\<lambda>x. x - opt) w, 1)) [1, 2]
     (SimpleTokenizer_new (Corpus ''HI'')) ''HI''
     \<lparr>batchSize = 4, epochs = 10, learningRate = 5 / 1000, seqLen = 32\<rparr>
   = (None, [1, 2], [PreparingDataset 2, ErrorMessage TextTooShort])"
proof -
  note w = failed_dataset_leaves_parameters
    [of "''HI''" "SimpleTokenizer_new (Corpus ''HI'')"
        "\<lparr>batchSize = 4, epochs = 10, learningRate = 5 / 1000, seqLen = 32\<rparr>"
        "\<lambda>lr. lr" "\<lambda>opt w i t. Inr (opt, map (\<lambda>x. x - opt) w, 1)" "[1, 2]"]
  from w have "buildDataset ''HI'' (SimpleTokenizer_new (Corpus ''HI''))
      (seqLen \<lparr>batchSize = 4, epochs = 10, learningRate = 5 / 1000, seqLen = 32\<rparr>)
      (batchSize \<lparr>batchSize = 4, epochs = 10, learningRate = 5 / 1000, seqLen = 32\<rparr>)
      = Inl TextTooShort"
    by simp
  with w show ?thesis by simp
qed

section \<open>Properties of the sampler\<close>








lemma cdf_loop_single:
  "(case cdf_loop [p] r acc i of None \<Rightarrow> i | Some k \<Rightarrow> k) = i"
  by simp

lemma full_branch_fallback:
  assumes "\<not> (0 < topK \<and> topK < int (length logits))"
    and "cdf_loop (softmax (map (\<lambda>x. x / max temperature (1 / 100000)) logits)) r 0 0 = None"
  shows "sampleFromLogits softmax r logits temperature topK
         = Some (int (length (softmax (map (\<lambda>x. x / max temperature (1 / 100000)) logits))) - 1)"
  using assms by (auto simp: sampleFromLogits_def Let_def)

lemma topk_branch_fallback:
  assumes "0 < topK" "topK < int (length logits)"
    and "cdf_loop (softmax (fst (topk (map (\<lambda>x. x / max temperature (1 / 100000)) logits) (nat topK)))) r 0 0 = None"
  shows "sampleFromLogits softmax r logits temperature topK
         = Some (int (hd (snd (topk (map (\<lambda>x. x / max temperature (1 / 100000)) logits) (nat topK)))))"
proof -
  let ?adj = "map (\<lambda>x. x / max temperature (1 / 100000)) logits"
  have "length (snd (topk ?adj (nat topK))) = nat topK"
    using assms(1,2) by (simp add: topk_def Let_def)
  then have ne: "0 < length (snd (topk ?adj (nat topK)))"
    using assms(1) by simp
  then have "snd (topk ?adj (nat topK)) ! 0 = hd (snd (topk ?adj (nat topK)))"
    by (simp add: hd_conv_nth)
  then show ?thesis
    using assms ne by (simp add: sampleFromLogits_def Let_def)
qed



lemma cdf_loop_exceeds:
  "(\<forall>p\<in>set ps. 0 \<le> p) \<Longrightarrow> acc + sum_list ps < r \<Longrightarrow> cdf_loop ps r acc i = None"
proof (induction ps arbitrary: acc i)
  case Nil
  show ?case by simp
next
  case (Cons p ps)
  have "0 \<le> sum_list ps" using Cons.prems(1) by (simp add: sum_list_nonneg)
  with Cons.prems have "\<not> r \<le> acc + p" by simp
  moreover have "cdf_loop ps r (acc + p) (i + 1) = None"
    using Cons.prems by (intro Cons.IH) (simp_all add: add.assoc)
  ultimately show ?case by simp
qed

lemma topk_skewed: "topk skewed_logits 25 = (replicate 25 1, [1..<26])"
  by code_simp

lemma adjust_unit: "map (\<lambda>x. x / max 1 (1 / 100000)) skewed_logits = skewed_logits"
  by (simp add: map_idI)

text \<open>
  C2. When the random draw exceeds the cumulative sum of the probabilities, the
  full-vocabulary branch returns the last id (lemma \<open>full_branch_fallback\<close>), but the
  top-k branch returns its first candidate, the one with the largest logit (lemma
  \<open>topk_branch_fallback\<close>). At the logits \<open>skewed_logits\<close> with temperature \<open>1\<close>,
  \<open>topK = 25\<close> and the draw \<open>0.99999999\<close>, the float32 probabilities of the 25
  candidates sum to less than the draw, the candidates are the ids 1 to 25, and the
  sampler returns id 1, not the last candidate 25.
\<close>

theorem topk_fallback_returns_first_candidate:
  "sum_list (softmax_f32_uniform25 (fst (topk skewed_logits 25))) < 99999999 / 100000000
   \<and> cdf_loop (softmax_f32_uniform25 (fst (topk skewed_logits 25))) (99999999 / 100000000) 0 0 = None
   \<and> snd (topk skewed_logits 25) = [1..<26]
   \<and> sampleFromLogits softmax_f32_uniform25 (99999999 / 100000000) skewed_logits 1 25 = Some 1"
proof -
  have probs: "softmax_f32_uniform25 (replicate 25 1) = replicate 25 (5368709 / 134217728)"
    by (simp add: softmax_f32_uniform25_def)
  have s: "sum_list (softmax_f32_uniform25 (fst (topk skewed_logits 25))) < 99999999 / 100000000"
    by (simp add: topk_skewed probs sum_list_replicate)
  have "\<forall>p\<in>set (softmax_f32_uniform25 (fst (topk skewed_logits 25))). 0 \<le> p"
    by (simp add: topk_skewed probs)
  from cdf_loop_exceeds [OF this, of 0 "99999999 / 100000000" 0] s
  have c: "cdf_loop (softmax_f32_uniform25 (fst (topk skewed_logits 25))) (99999999 / 100000000) 0 0 = None"
    by simp
  have i: "snd (topk skewed_logits 25) = [1..<26]"
    by (simp add: topk_skewed)
  have len: "length skewed_logits = 26" by (simp add: skewed_logits_def)
  have t: "sampleFromLogits softmax_f32_uniform25 (99999999 / 100000000) skewed_logits 1 25 = Some 1"
    using c by (simp add: sampleFromLogits_def Let_def adjust_unit len i)
  from s c i t show ?thesis by blast
qed

section \<open>Properties of the model\<close>

lemma EncoderBlock_new_props:
  "depth (mha (fst (EncoderBlock_new gauss dm nh df s))) = floor_div dm nh"
  "nextId (snd (EncoderBlock_new gauss dm nh df s)) = nextId s + 10"
  by (simp_all add: EncoderBlock_new_def MultiHeadAttention_new_def FeedForward_new_def
        LayerNormalization_new_def tf_variable_def randomNormal_def Let_def)

lemma blocks_loop_props:
  "i \<le> numLayers cfg \<Longrightarrow>
     map (\<lambda>b. depth (mha b)) (fst (blocks_loop gauss cfg i bs))
       = map (\<lambda>b. depth (mha b)) (fst bs)
         @ replicate (numLayers cfg - i) (floor_div (dModel cfg) (numHeads cfg))
   \<and> nextId (snd (blocks_loop gauss cfg i bs)) = nextId (snd bs) + 10 * (numLayers cfg - i)"
proof (induction gauss cfg i bs rule: blocks_loop.induct)
  case (1 gauss cfg i bs)
  show ?case
  proof (cases "i < numLayers cfg")
    case True
    then have "Suc (numLayers cfg - Suc i) = numLayers cfg - i" by simp
    then have r: "replicate (numLayers cfg - i) (floor_div (dModel cfg) (numHeads cfg))
        = floor_div (dModel cfg) (numHeads cfg)
          # replicate (numLayers cfg - Suc i) (floor_div (dModel cfg) (numHeads cfg))"
      by (metis replicate_Suc)
    from True "1.IH" [OF True refl] show ?thesis
      by (subst (1 2) blocks_loop.simps) (simp add: Let_def EncoderBlock_new_props r)
  next
    case False
    with "1.prems" show ?thesis
      by (subst (1 2) blocks_loop.simps) simp
  qed
qed

text \<open>
  C1 (as the code has it). The constructor checks nothing: for every configuration it
  returns a model with that configuration and \<open>numLayers\<close> blocks, each with head
  depth \<open>floor(dModel / numHeads)\<close>, and allocates the embedding table, ten parameter
  tensors per block and the final projection. Divisibility of \<open>dModel\<close> by
  \<open>numHeads\<close> is not required.
\<close>

theorem constructor_accepts_every_config:
  "config (fst (TransformerModel_new gauss cfg s)) = cfg
   \<and> length (encoderBlocks (fst (TransformerModel_new gauss cfg s))) = numLayers cfg
   \<and> map (\<lambda>b. depth (mha b)) (encoderBlocks (fst (TransformerModel_new gauss cfg s)))
       = replicate (numLayers cfg) (floor_div (dModel cfg) (numHeads cfg))
   \<and> nextId (snd (TransformerModel_new gauss cfg s)) = nextId s + 2 + 10 * numLayers cfg"
proof -
  let ?e = "TokenEmbedding_new gauss (cfg_vocabSize cfg) (dModel cfg) s"
  have e: "nextId (snd ?e) = nextId s + 1"
    by (simp add: TokenEmbedding_new_def tf_variable_def randomNormal_def Let_def)
  note b = blocks_loop_props [of 0 cfg gauss "([], snd ?e)", simplified]
  have d: "map (\<lambda>b. depth (mha b)) (encoderBlocks (fst (TransformerModel_new gauss cfg s)))
       = replicate (numLayers cfg) (floor_div (dModel cfg) (numHeads cfg))"
    using b by (simp add: TransformerModel_new_def Let_def)
  from arg_cong [OF d, of length]
  have l: "length (encoderBlocks (fst (TransformerModel_new gauss cfg s))) = numLayers cfg"
    by simp
  have n: "nextId (snd (TransformerModel_new gauss cfg s)) = nextId s + 2 + 10 * numLayers cfg"
    using b e by (simp add: TransformerModel_new_def Let_def tf_variable_def randomNormal_def)
  have c: "config (fst (TransformerModel_new gauss cfg s)) = cfg"
    by (simp add: TransformerModel_new_def Let_def)
  from c l d n show ?thesis by blast
qed

text \<open>
  C1 as it is stated fails. The configuration \<open>cfg0\<close> has \<open>dModel = 3\<close> and
  \<open>numHeads = 2\<close>, and the constructor returns a model for it, with head depth 1,
  after allocating all twelve parameter tensors: construction does not fail.
\<close>

theorem constructor_accepts_indivisible_config:
  "dModel cfg0 mod numHeads cfg0 \<noteq> 0
   \<and> config (fst (TransformerModel_new zero_noise cfg0 tf_init)) = cfg0
   \<and> depth (mha (hd (encoderBlocks (fst (TransformerModel_new zero_noise cfg0 tf_init))))) = Num 1
   \<and> nextId tf_init = 0
   \<and> nextId (snd (TransformerModel_new zero_noise cfg0 tf_init)) = 12"
  by code_simp

text \<open>
  C9. \<^verbatim>\<open>predict\<close> on the empty list of token ids returns the predicted id 0 and empty
  attention weights, without running the forward pass and without an error.
\<close>

theorem predict_empty_input: "predict forward m s [] = Inr (0, [])"
  by (simp add: predict_def)

section \<open>Properties of persistence\<close>

lemma set_update_subset: "set (AList.update k v al) \<subseteq> insert (k, v) (set al)"
  by (induction al) auto

lemma fold_update_set:
  "set (fold (\<lambda>p ob. AList.update (fst p) (snd p) ob) es ob0) \<subseteq> set es \<union> set ob0"
proof (induction es arbitrary: ob0)
  case Nil
  show ?case by simp
next
  case (Cons e es)
  from Cons [of "AList.update (fst e) (snd e) ob0"] set_update_subset [of "fst e" "snd e" ob0]
  show ?case by auto
qed

lemma fold_update_distinct:
  "distinct (map fst ob0) \<Longrightarrow>
     distinct (map fst (fold (\<lambda>p ob. AList.update (fst p) (snd p) ob) es ob0))"
  by (induction es arbitrary: ob0) (simp_all add: distinct_update)

lemma fold_update_map_of:
  "map_of (fold (\<lambda>p ob. AList.update (fst p) (snd p) ob) es ob0) = map_of ob0 ++ map_of (rev es)"
proof (induction es arbitrary: ob0)
  case Nil
  show ?case by simp
next
  case (Cons e es)
  have "map_of [e] = [fst e \<mapsto> snd e]" by (cases e) simp
  then show ?case
    by (simp add: Cons update_conv' map_add_upd_left map_add_assoc [symmetric])
       (simp add: map_add_def fun_eq_iff split: option.splits)
qed

lemma map_of_same_set:
  "distinct (map fst xs) \<Longrightarrow> distinct (map fst ys) \<Longrightarrow> set xs = set ys \<Longrightarrow> map_of xs = map_of ys"
  by (simp add: map_of_inject_set)

lemma map_of_rev_distinct: "distinct (map fst xs) \<Longrightarrow> map_of (rev xs) = map_of xs"
  by (rule map_of_same_set) (simp_all add: rev_map [symmetric])

lemma Object_entries_mset: "mset (Object_entries ob) = mset ob"
  by (simp add: Object_entries_def)

lemma Object_entries_num_mset: "mset (Object_entries_num ob) = mset ob"
  by (simp add: Object_entries_num_def)

lemma mset_keys_distinct:
  assumes "mset xs = mset ys" "distinct (map fst ys)"
  shows "distinct (map fst xs)" "set xs = set ys"
proof -
  from assms(1) have "mset (map fst xs) = mset (map fst ys)" by (metis mset_map)
  with assms(2) show "distinct (map fst xs)" by (metis mset_eq_imp_distinct_iff)
  from assms(1) show "set xs = set ys" by (rule mset_eq_setD)
qed

lemma entries_round_trip:
  assumes "mset es = mset (fold (\<lambda>p ob. AList.update (fst p) (snd p) ob) xs [])"
    and "distinct (map fst xs)"
  shows "map_of (fold (\<lambda>p ob. AList.update (fst p) (snd p) ob) es []) = map_of xs"
proof -
  let ?ob = "fold (\<lambda>p ob. AList.update (fst p) (snd p) ob) xs []"
  have d: "distinct (map fst ?ob)" by (rule fold_update_distinct) simp
  from mset_keys_distinct [OF assms(1) d]
  have "map_of es = map_of ?ob" by (intro map_of_same_set d)
  moreover have "distinct (map fst es)" using mset_keys_distinct(1) [OF assms(1) d] .
  ultimately show ?thesis
    using assms(2) by (simp add: fold_update_map_of map_of_rev_distinct)
qed

lemma hydrated_tokenizer_maps:
  assumes "Map_ok (vocab tok)" "Map_ok (inverseVocab tok)"
  shows "Map_get (vocab (importTokenizer
            \<lparr>charToId = Object_fromEntries (vocab tok),
             idToChar = Object_fromEntries (inverseVocab tok),
             ser_vocabSize = vocabSize tok\<rparr>)) = Map_get (vocab tok)"
    and "Map_get (inverseVocab (importTokenizer
            \<lparr>charToId = Object_fromEntries (vocab tok),
             idToChar = Object_fromEntries (inverseVocab tok),
             ser_vocabSize = vocabSize tok\<rparr>)) = Map_get (inverseVocab tok)"
    and "vocabSize (importTokenizer
            \<lparr>charToId = Object_fromEntries (vocab tok),
             idToChar = Object_fromEntries (inverseVocab tok),
             ser_vocabSize = vocabSize tok\<rparr>) = vocabSize tok"
proof -
  have a: "map_of (fold (\<lambda>p ob. AList.update (fst p) (snd p) ob)
              (Object_entries (Object_fromEntries (vocab tok))) []) = map_of (vocab tok)"
    using assms(1)
    by (intro entries_round_trip) (simp_all add: Object_entries_mset Object_fromEntries_def Map_ok_def)
  have b: "map_of (fold (\<lambda>p ob. AList.update (fst p) (snd p) ob)
              (Object_entries_num (Object_fromEntries (inverseVocab tok))) []) = map_of (inverseVocab tok)"
    using assms(2)
    by (intro entries_round_trip) (simp_all add: Object_entries_num_mset Object_fromEntries_def Map_ok_def)
  show "Map_get (vocab (importTokenizer
            \<lparr>charToId = Object_fromEntries (vocab tok),
             idToChar = Object_fromEntries (inverseVocab tok),
             ser_vocabSize = vocabSize tok\<rparr>)) = Map_get (vocab tok)"
    using a by (simp add: importTokenizer_def SimpleTokenizer_new_def hydrate_vocab_def
        Map_set_def Map_get_def fun_eq_iff)
  show "Map_get (inverseVocab (importTokenizer
            \<lparr>charToId = Object_fromEntries (vocab tok),
             idToChar = Object_fromEntries (inverseVocab tok),
             ser_vocabSize = vocabSize tok\<rparr>)) = Map_get (inverseVocab tok)"
    using b by (simp add: importTokenizer_def SimpleTokenizer_new_def hydrate_inverse_def
        Map_set_def Map_get_def fun_eq_iff)
  show "vocabSize (importTokenizer
            \<lparr>charToId = Object_fromEntries (vocab tok),
             idToChar = Object_fromEntries (inverseVocab tok),
             ser_vocabSize = vocabSize tok\<rparr>) = vocabSize tok"
    by (simp add: importTokenizer_def SimpleTokenizer_new_def)
qed

lemma forEach_block_distinct:
  "distinct (map fst vars) \<Longrightarrow> distinct (map fst (forEach_block blocks i vars))"
  by (induction blocks i vars rule: forEach_block.induct) (simp_all add: Let_def distinct_update)

lemma getTrainableVariables_distinct: "distinct (map fst (getTrainableVariables m))"
  by (simp add: getTrainableVariables_def Let_def distinct_update forEach_block_distinct)

lemma export_loop_exported:
  assumes "\<forall>p\<in>set es. \<exists>t. map_of vars (fst p) = Some (snd p) \<and> variables s (snd p) = Some t
                \<and> length (data t) = prod_list (shape t)"
    and "\<forall>e\<in>set ws0. exported vars s e"
  shows "\<exists>ws. export_loop es s ws0 = Inr ws \<and> (\<forall>e\<in>set ws. exported vars s e)
           \<and> (distinct (map fst ws0) \<longrightarrow> distinct (map fst ws))"
  using assms
proof (induction es arbitrary: ws0)
  case Nil
  then show ?case by simp
next
  case (Cons p es)
  obtain name v where p: "p = (name, v)" by (cases p)
  from Cons.prems(1) p obtain t where
    t: "map_of vars name = Some v" "variables s v = Some t" "length (data t) = prod_list (shape t)"
    by auto
  let ?ws1 = "AList.update name \<lparr>spec_shape = shape t, spec_data = data t\<rparr> ws0"
  have "exported vars s (name, \<lparr>spec_shape = shape t, spec_data = data t\<rparr>)"
    using t by (auto simp: exported_def)
  with Cons.prems(2) set_update_subset [of name _ ws0]
  have ok1: "\<forall>e\<in>set ?ws1. exported vars s e" by blast
  from Cons.prems(1) have "\<forall>p\<in>set es. \<exists>t. map_of vars (fst p) = Some (snd p)
        \<and> variables s (snd p) = Some t \<and> length (data t) = prod_list (shape t)"
    by simp
  from Cons.IH [OF this ok1] obtain ws where
    "export_loop es s ?ws1 = Inr ws" "\<forall>e\<in>set ws. exported vars s e"
    "distinct (map fst ?ws1) \<longrightarrow> distinct (map fst ws)"
    by blast
  then show ?case
    using t(2) by (auto simp: p distinct_update)
qed

lemma assign_same: "variables s v = Some t \<Longrightarrow> assign s v t = s"
  by (simp add: assign_def map_upd_triv)

lemma import_loop_identity:
  "\<forall>e\<in>set es. exported vars s e \<Longrightarrow> import_loop vars es s warns = (None, s, warns)"
proof (induction es)
  case Nil
  show ?case by simp
next
  case (Cons e es)
  obtain name spec where e: "e = (name, spec)" by (cases e)
  from Cons.prems e obtain v t where
    t: "map_of vars name = Some v" "variables s v = Some t" "length (data t) = prod_list (shape t)"
       "spec = \<lparr>spec_shape = shape t, spec_data = data t\<rparr>"
    by (auto simp: exported_def)
  have "tf_tensor (spec_data spec) (spec_shape spec) = Inr t"
    using t(3,4) by (simp add: tf_tensor_def)
  moreover have "import_loop vars es s warns = (None, s, warns)"
    using Cons by simp
  ultimately show ?case
    using t by (simp add: e assign_same)
qed

lemma variables_ok_D:
  assumes "variables_ok m s" "p \<in> set (getTrainableVariables m)"
  shows "\<exists>t. map_of (getTrainableVariables m) (fst p) = Some (snd p)
           \<and> variables s (snd p) = Some t \<and> length (data t) = prod_list (shape t)"
proof -
  from assms have "case variables s (snd p) of None \<Rightarrow> False
      | Some t \<Rightarrow> length (data t) = prod_list (shape t)"
    by (simp add: variables_ok_def list_all_iff)
  moreover have "map_of (getTrainableVariables m) (fst p) = Some (snd p)"
    using assms(2) map_of_is_SomeI [OF getTrainableVariables_distinct [of m], of "fst p" "snd p"]
    by simp
  ultimately show ?thesis by (auto split: option.splits)
qed

lemma weights_round_trip:
  assumes "variables_ok m s"
  shows "\<exists>st. exportModelState m tok now s = Inr st
          \<and> saved_tokenizer st = \<lparr>charToId = Object_fromEntries (vocab tok),
               idToChar = Object_fromEntries (inverseVocab tok),
               ser_vocabSize = vocabSize tok\<rparr>
          \<and> importModelState m st s = (None, s, [])"
proof -
  let ?vars = "getTrainableVariables m"
  have "\<forall>p\<in>set (Object_entries ?vars). \<exists>t. map_of ?vars (fst p) = Some (snd p)
          \<and> variables s (snd p) = Some t \<and> length (data t) = prod_list (shape t)"
    using variables_ok_D [OF assms] mset_eq_setD [OF Object_entries_mset [of ?vars]] by blast
  from export_loop_exported [OF this, of "[]"] obtain ws where
    ws: "export_loop (Object_entries ?vars) s [] = Inr ws" "\<forall>e\<in>set ws. exported ?vars s e"
    by auto
  have "\<forall>e\<in>set (Object_entries ws). exported ?vars s e"
    using ws(2) mset_eq_setD [OF Object_entries_mset [of ws]] by blast
  from import_loop_identity [OF this, of "[]"] ws(1) show ?thesis
    by (simp add: exportModelState_def importModelState_def Let_def)
qed

text \<open>
  C3. Importing into a model the state exported from it succeeds, writes no warning and
  leaves every parameter tensor as it was, exactly; the tokenizer rebuilt from the
  exported state has the same vocabulary in both directions and the same size, and
  encodes and decodes as the original does.
\<close>

theorem export_import_round_trip:
  assumes "variables_ok m s" and "Map_ok (vocab tok)" and "Map_ok (inverseVocab tok)"
  shows "\<exists>st. exportModelState m tok now s = Inr st
          \<and> importModelState m st s = (None, s, [])
          \<and> Map_get (vocab (importTokenizer (saved_tokenizer st))) = Map_get (vocab tok)
          \<and> Map_get (inverseVocab (importTokenizer (saved_tokenizer st))) = Map_get (inverseVocab tok)
          \<and> vocabSize (importTokenizer (saved_tokenizer st)) = vocabSize tok
          \<and> encode (importTokenizer (saved_tokenizer st)) = encode tok
          \<and> decode (importTokenizer (saved_tokenizer st)) = decode tok"
proof -
  from weights_round_trip [OF assms(1), of tok now] obtain st where
    st: "exportModelState m tok now s = Inr st"
        "saved_tokenizer st = \<lparr>charToId = Object_fromEntries (vocab tok),
               idToChar = Object_fromEntries (inverseVocab tok),
               ser_vocabSize = vocabSize tok\<rparr>"
        "importModelState m st s = (None, s, [])"
    by blast
  note t = hydrated_tokenizer_maps [OF assms(2,3), folded st(2)]
  have "encode (importTokenizer (saved_tokenizer st)) = encode tok"
    by (simp add: encode_def fun_eq_iff t(1))
  moreover have "decode (importTokenizer (saved_tokenizer st)) = decode tok"
    by (simp add: decode_def fun_eq_iff t(2))
  ultimately show ?thesis using st(1,3) t by blast
qed

theorem export_import_round_trip_witness:
  "variables_ok m0 s0
   \<and> Map_ok (vocab (SimpleTokenizer_new (Corpus ''b1a0'')))
   \<and> Map_ok (inverseVocab (SimpleTokenizer_new (Corpus ''b1a0'')))
   \<and> (\<exists>st. exportModelState m0 (SimpleTokenizer_new (Corpus ''b1a0'')) 7 s0 = Inr st
          \<and> importModelState m0 st s0 = (None, s0, []))"
proof -
  have a: "variables_ok m0 s0" by code_simp
  have b: "Map_ok (vocab (SimpleTokenizer_new (Corpus ''b1a0'')))" by code_simp
  have c: "Map_ok (inverseVocab (SimpleTokenizer_new (Corpus ''b1a0'')))" by code_simp
  from export_import_round_trip [OF a b c, of 7] a b c show ?thesis by blast
qed







section \<open>The constructors establish the invariants\<close>

text \<open>
  The hypotheses of the persistence theorems hold for every tokenizer and every model
  that the constructors build: the keys of the two maps of a tokenizer are distinct,
  and the variables of a model are distinct tensors that the library holds.
\<close>

lemma fold_Map_set_ok:
  "Map_ok m \<Longrightarrow> Map_ok (fold (\<lambda>p m'. Map_set m' (fst p) (snd p)) es m)"
  by (induction es arbitrary: m) (simp_all add: Map_ok_def Map_set_def distinct_update)

lemma tokenizer_maps_ok:
  "Map_ok (vocab (SimpleTokenizer_new input)) \<and> Map_ok (inverseVocab (SimpleTokenizer_new input))"
proof -
  have fe: "Map_ok (vocab t) \<Longrightarrow> Map_ok (inverseVocab t) \<Longrightarrow>
      Map_ok (vocab (snd (forEach_char chs idx t))) \<and> Map_ok (inverseVocab (snd (forEach_char chs idx t)))"
    for chs idx t
    by (induction chs idx t rule: forEach_char.induct)
       (simp_all add: Map_ok_def Map_set_def distinct_update)
  show ?thesis
  proof (cases input)
    case (Corpus s)
    then show ?thesis
      using fe [of "\<lparr>vocab = [(''<PAD>'', 0), (''<UNK>'', 1)], inverseVocab = [(0, ''<PAD>''), (1, ''<UNK>'')], vocabSize = 0\<rparr>"]
      by (simp add: SimpleTokenizer_new_def Let_def Map_set_def Map_ok_def)
  next
    case (Serialized ser)
    then show ?thesis
      using fold_Map_set_ok [of "[]" "Object_entries (charToId ser)"]
        fold_Map_set_ok [of "[]" "Object_entries_num (idToChar ser)"]
      by (simp add: SimpleTokenizer_new_def Let_def hydrate_vocab_def hydrate_inverse_def Map_ok_def)
  qed
qed

lemma randomNormal_simps [simp]:
  "well_sized (fst (randomNormal gauss shp mean stddev s))"
  "nextId (snd (randomNormal gauss shp mean stddev s)) = nextId s"
  "variables (snd (randomNormal gauss shp mean stddev s)) = variables s"
  by (simp_all add: randomNormal_def well_sized_def)

lemma ones_zeros_sized [simp]: "well_sized (ones shp)" "well_sized (zeros shp)"
  by (simp_all add: ones_def zeros_def well_sized_def)

lemma tf_variable_simps [simp]:
  "fst (tf_variable ts) = nextId (snd ts)"
  "nextId (snd (tf_variable ts)) = nextId (snd ts) + 1"
  by (simp_all add: tf_variable_def)

lemma held_randomNormal [simp]:
  "held (snd (randomNormal gauss shp mean stddev s)) a = held s a"
  by (simp add: held_def)

lemma held_tf_variable [simp]:
  "held (snd ts) a \<Longrightarrow> well_sized (fst ts) \<Longrightarrow> held (snd (tf_variable ts)) a"
  by (auto simp: held_def tf_variable_def)

lemma held_pair [simp]: "held (snd (t, s)) a = held s a" "fst (t, s) = t"
  by simp_all

lemma EncoderBlock_new_held:
  "held s a \<Longrightarrow> held (snd (EncoderBlock_new gauss dm nh df s)) a"
  by (simp add: EncoderBlock_new_def MultiHeadAttention_new_def FeedForward_new_def
        LayerNormalization_new_def Let_def)

lemma EncoderBlock_new_ids:
  "block_ids (fst (EncoderBlock_new gauss dm nh df s)) = map (\<lambda>k. nextId s + k) [0..<10]"
  by (simp add: block_ids_def EncoderBlock_new_def MultiHeadAttention_new_def FeedForward_new_def
        LayerNormalization_new_def Let_def upt_rec)

lemma update_values_subset: "snd ` set (AList.update k v al) \<subseteq> insert v (snd ` set al)"
  by (induction al) auto

lemma update_values_distinct:
  "distinct (map snd al) \<Longrightarrow> v \<notin> snd ` set al \<Longrightarrow> distinct (map snd (AList.update k v al))"
proof (induction al)
  case Nil
  show ?case by simp
next
  case (Cons p al)
  show ?case
  proof (cases "fst p = k")
    case True
    with Cons.prems show ?thesis by auto
  next
    case False
    from Cons.prems have "snd p \<notin> snd ` set (AList.update k v al)"
      using update_values_subset [of k v al] by auto
    with False Cons show ?thesis by auto
  qed
qed

lemma fold_update_values:
  "distinct (map snd al @ map snd kvs) \<Longrightarrow>
     distinct (map snd (fold (\<lambda>p ob. AList.update (fst p) (snd p) ob) kvs al))
     \<and> snd ` set (fold (\<lambda>p ob. AList.update (fst p) (snd p) ob) kvs al)
          \<subseteq> snd ` set al \<union> snd ` set kvs"
proof (induction kvs arbitrary: al)
  case Nil
  then show ?case by simp
next
  case (Cons p kvs)
  let ?al = "AList.update (fst p) (snd p) al"
  have sub: "snd ` set ?al \<subseteq> insert (snd p) (snd ` set al)"
    by (rule update_values_subset)
  have d: "distinct (map snd ?al)"
    using Cons.prems by (intro update_values_distinct) auto
  have "snd ` set ?al \<inter> snd ` set kvs = {}"
  proof (rule ccontr)
    assume "snd ` set ?al \<inter> snd ` set kvs \<noteq> {}"
    then obtain x where x: "x \<in> snd ` set ?al" "x \<in> snd ` set kvs" by blast
    from Cons.prems have a: "snd p \<notin> snd ` set kvs" "snd ` set al \<inter> snd ` set kvs = {}"
      by auto
    from x(1) sub have "x = snd p \<or> x \<in> snd ` set al" by blast
    then show False
    proof
      assume "x = snd p"
      with x(2) a(1) show False by simp
    next
      assume "x \<in> snd ` set al"
      with x(2) a(2) show False by blast
    qed
  qed
  then have "distinct (map snd ?al @ map snd kvs)"
    using Cons.prems d by simp
  from Cons.IH [OF this]
  have r: "distinct (map snd (fold (\<lambda>p ob. AList.update (fst p) (snd p) ob) kvs ?al))"
    "snd ` set (fold (\<lambda>p ob. AList.update (fst p) (snd p) ob) kvs ?al)
       \<subseteq> snd ` set ?al \<union> snd ` set kvs"
    by blast+
  have "snd ` set (p # kvs) = insert (snd p) (snd ` set kvs)" by simp
  with r(2) sub
  have "snd ` set (fold (\<lambda>p ob. AList.update (fst p) (snd p) ob) kvs ?al)
       \<subseteq> snd ` set al \<union> snd ` set (p # kvs)"
    by blast
  with r(1) show ?case by simp
qed

lemma forEach_block_fold:
  "forEach_block (b # rest) i vars =
     forEach_block rest (i + 1)
       (fold (\<lambda>p ob. AList.update (fst p) (snd p) ob)
          (zip (map (\<lambda>suffix. ''blk'' @ string_of_nat i @ suffix)
                  [''_mha_wq'', ''_mha_wk'', ''_mha_wv'', ''_mha_wo'', ''_ffn_w1'', ''_ffn_w2'',
                   ''_ln1_g'', ''_ln1_b'', ''_ln2_g'', ''_ln2_b''])
               (block_ids b)) vars)"
  by (simp add: Let_def block_ids_def)

lemma forEach_block_values:
  "distinct (map snd vars @ concat (map block_ids blocks)) \<Longrightarrow>
     distinct (map snd (forEach_block blocks i vars))
     \<and> snd ` set (forEach_block blocks i vars)
          \<subseteq> snd ` set vars \<union> set (concat (map block_ids blocks))"
proof (induction blocks arbitrary: i vars)
  case Nil
  then show ?case by simp
next
  case (Cons b rest)
  define kvs where "kvs = zip (map (\<lambda>suffix. ''blk'' @ string_of_nat i @ suffix)
                  [''_mha_wq'', ''_mha_wk'', ''_mha_wv'', ''_mha_wo'', ''_ffn_w1'', ''_ffn_w2'',
                   ''_ln1_g'', ''_ln1_b'', ''_ln2_g'', ''_ln2_b''])
               (block_ids b)"
  define vars1 where "vars1 = fold (\<lambda>p ob. AList.update (fst p) (snd p) ob) kvs vars"
  have step: "forEach_block (b # rest) i vars = forEach_block rest (i + 1) vars1"
    unfolding vars1_def kvs_def by (rule forEach_block_fold)
  have kv: "map snd kvs = block_ids b" by (simp add: kvs_def block_ids_def)
  then have kvset: "snd ` set kvs = set (block_ids b)" by (metis list.set_map)
  have "snd ` set vars \<inter> set (block_ids b) = {}"
    using Cons.prems by auto
  then have "distinct (map snd vars @ map snd kvs)"
    using Cons.prems unfolding kv by simp
  from fold_update_values [OF this]
  have v: "distinct (map snd vars1)" "snd ` set vars1 \<subseteq> snd ` set vars \<union> set (block_ids b)"
    unfolding vars1_def kvset by blast+
  have "snd ` set vars1 \<inter> set (concat (map block_ids rest)) = {}"
  proof (rule ccontr)
    assume "snd ` set vars1 \<inter> set (concat (map block_ids rest)) \<noteq> {}"
    then obtain x where x: "x \<in> snd ` set vars1" "x \<in> set (concat (map block_ids rest))"
      by blast
    from x(1) v(2) have "x \<in> snd ` set vars \<or> x \<in> set (block_ids b)" by blast
    with x(2) Cons.prems show False by auto
  qed
  then have "distinct (map snd vars1 @ concat (map block_ids rest))"
    using Cons.prems v(1) by simp
  from Cons.IH [OF this, of "i + 1"]
  have r: "distinct (map snd (forEach_block rest (i + 1) vars1))"
    "snd ` set (forEach_block rest (i + 1) vars1)
       \<subseteq> snd ` set vars1 \<union> set (concat (map block_ids rest))"
    by blast+
  have "snd ` set (forEach_block rest (i + 1) vars1)
       \<subseteq> snd ` set vars \<union> set (concat (map block_ids (b # rest)))"
    using r(2) v(2) by auto
  with r(1) show ?case unfolding step by blast
qed

lemma blocks_loop_inv:
  assumes "held (snd bs) a"
    and "distinct (concat (map block_ids (fst bs)))"
    and "set (concat (map block_ids (fst bs))) \<subseteq> {b..<nextId (snd bs)}"
    and "b \<le> nextId (snd bs)"
  shows "held (snd (blocks_loop gauss cfg i bs)) a
     \<and> distinct (concat (map block_ids (fst (blocks_loop gauss cfg i bs))))
     \<and> set (concat (map block_ids (fst (blocks_loop gauss cfg i bs))))
          \<subseteq> {b..<nextId (snd (blocks_loop gauss cfg i bs))}"
  using assms
proof (induction gauss cfg i bs rule: blocks_loop.induct)
  case (1 gauss cfg i bs)
  show ?case
  proof (cases "i < numLayers cfg")
    case True
    define blk where "blk = EncoderBlock_new gauss (dModel cfg) (numHeads cfg) (dff cfg) (snd bs)"
    define bs1 where "bs1 = (fst bs @ [fst blk], snd blk)"
    have step: "blocks_loop gauss cfg i bs = blocks_loop gauss cfg (i + 1) bs1"
      unfolding bs1_def blk_def using True by (subst blocks_loop.simps) (simp add: Let_def)
    have ids: "block_ids (fst blk) = map (\<lambda>k. nextId (snd bs) + k) [0..<10]"
      unfolding blk_def by (rule EncoderBlock_new_ids)
    have n: "nextId (snd bs1) = nextId (snd bs) + 10"
      unfolding bs1_def blk_def by (simp add: EncoderBlock_new_props)
    have h: "held (snd bs1) a"
      unfolding bs1_def blk_def using "1.prems"(1) by (simp add: EncoderBlock_new_held)
    have new_d: "distinct (block_ids (fst blk))"
      unfolding ids by (simp add: distinct_map inj_on_def)
    have new_r: "set (block_ids (fst blk)) \<subseteq> {nextId (snd bs)..<nextId (snd bs) + 10}"
      unfolding ids by auto
    have cc: "concat (map block_ids (fst bs1)) = concat (map block_ids (fst bs)) @ block_ids (fst blk)"
      by (simp add: bs1_def)
    have disj: "set (concat (map block_ids (fst bs))) \<inter> set (block_ids (fst blk)) = {}"
    proof (rule ccontr)
      assume "set (concat (map block_ids (fst bs))) \<inter> set (block_ids (fst blk)) \<noteq> {}"
      then obtain x where "x \<in> set (concat (map block_ids (fst bs)))" "x \<in> set (block_ids (fst blk))"
        by blast
      with "1.prems"(3) new_r have "x < nextId (snd bs)" "nextId (snd bs) \<le> x"
        by (auto simp: subset_iff)
      then show False by simp
    qed
    have d: "distinct (concat (map block_ids (fst bs1)))"
      unfolding cc using "1.prems"(2) new_d disj by simp
    have r: "set (concat (map block_ids (fst bs1))) \<subseteq> {b..<nextId (snd bs1)}"
    proof
      fix x assume "x \<in> set (concat (map block_ids (fst bs1)))"
      then have "x \<in> set (concat (map block_ids (fst bs))) \<or> x \<in> set (block_ids (fst blk))"
        unfolding cc by simp
      then have "b \<le> x \<and> x < nextId (snd bs) + 10"
      proof
        assume "x \<in> set (concat (map block_ids (fst bs)))"
        with "1.prems"(3) have "b \<le> x \<and> x < nextId (snd bs)" by (auto simp: subset_iff)
        then show ?thesis by simp
      next
        assume "x \<in> set (block_ids (fst blk))"
        with new_r have "nextId (snd bs) \<le> x \<and> x < nextId (snd bs) + 10"
          by (auto simp: subset_iff)
        with "1.prems"(4) show ?thesis by simp
      qed
      then show "x \<in> {b..<nextId (snd bs1)}" unfolding n by simp
    qed
    have le: "b \<le> nextId (snd bs1)" using "1.prems"(4) n by simp
    have "held (snd (blocks_loop gauss cfg (i + 1) bs1)) a
     \<and> distinct (concat (map block_ids (fst (blocks_loop gauss cfg (i + 1) bs1))))
     \<and> set (concat (map block_ids (fst (blocks_loop gauss cfg (i + 1) bs1))))
          \<subseteq> {b..<nextId (snd (blocks_loop gauss cfg (i + 1) bs1))}"
      using "1.IH" [OF True, of blk] h d r le unfolding bs1_def blk_def by blast
    then show ?thesis unfolding step .
  next
    case False
    then have "blocks_loop gauss cfg i bs = bs"
      by (subst blocks_loop.simps) simp
    with "1.prems" show ?thesis by simp
  qed
qed

lemma held_trivial: "held s (nextId s)"
  by (auto simp: held_def)

lemma constructed_model_invariants:
  "variables_ok (fst (TransformerModel_new gauss cfg s)) (snd (TransformerModel_new gauss cfg s))
   \<and> distinct (map snd (getTrainableVariables (fst (TransformerModel_new gauss cfg s))))"
proof -
  define n0 where "n0 = nextId s"
  define e where "e = TokenEmbedding_new gauss (cfg_vocabSize cfg) (dModel cfg) s"
  define R where "R = blocks_loop gauss cfg 0 ([], snd e)"
  define f where "f = tf_variable (randomNormal gauss [dModel cfg, cfg_vocabSize cfg] 0 1 (snd R))"
  define m where "m = \<lparr>embedding = fst e, encoderBlocks = fst R, finalLayer = fst f, config = cfg\<rparr>"
  have new: "TransformerModel_new gauss cfg s = (m, snd f)"
    by (simp add: TransformerModel_new_def Let_def m_def f_def R_def e_def)
  have e: "emb_embedding (fst e) = n0" "nextId (snd e) = n0 + 1" "held (snd e) n0"
    using held_trivial [of s] by (simp_all add: e_def n0_def TokenEmbedding_new_def Let_def)
  have "held (snd ([] :: EncoderBlock list, snd e)) n0"
    "distinct (concat (map block_ids (fst ([] :: EncoderBlock list, snd e))))"
    "set (concat (map block_ids (fst ([] :: EncoderBlock list, snd e))))
       \<subseteq> {n0 + 1..<nextId (snd ([] :: EncoderBlock list, snd e))}"
    "n0 + 1 \<le> nextId (snd ([] :: EncoderBlock list, snd e))"
    using e by simp_all
  from blocks_loop_inv [OF this, of gauss cfg 0]
  have R: "held (snd R) n0" "distinct (concat (map block_ids (fst R)))"
    "set (concat (map block_ids (fst R))) \<subseteq> {n0 + 1..<nextId (snd R)}"
    unfolding R_def by blast+
  have f: "fst f = nextId (snd R)" "nextId (snd f) = nextId (snd R) + 1" "held (snd f) n0"
    using R(1) by (simp_all add: f_def)
  define vars1 where "vars1 = forEach_block (fst R) 0 [(''emb_embedding'', n0)]"
  have vars: "getTrainableVariables m = AList.update ''final_proj'' (nextId (snd R)) vars1"
    by (simp add: getTrainableVariables_def Let_def m_def vars1_def e(1) f(1))
  have "n0 \<notin> set (concat (map block_ids (fst R)))"
    using R(3) by (auto simp: subset_iff)
  then have "distinct (map snd [(''emb_embedding'', n0)] @ concat (map block_ids (fst R)))"
    using R(2) by simp
  from forEach_block_values [OF this, of 0]
  have v1: "distinct (map snd vars1)"
    "snd ` set vars1 \<subseteq> snd ` set [(''emb_embedding'', n0)] \<union> set (concat (map block_ids (fst R)))"
    unfolding vars1_def by blast+
  have range1: "snd ` set vars1 \<subseteq> {n0..<nextId (snd R)}"
  proof
    fix x assume "x \<in> snd ` set vars1"
    with v1(2) have "x = n0 \<or> x \<in> set (concat (map block_ids (fst R)))" by auto
    then show "x \<in> {n0..<nextId (snd R)}"
    proof
      assume "x = n0"
      moreover have "n0 < nextId (snd R)"
        using blocks_loop_props [of 0 cfg gauss "([], snd e)"] e(2) by (simp add: R_def)
      ultimately show ?thesis by simp
    next
      assume "x \<in> set (concat (map block_ids (fst R)))"
      with R(3) show ?thesis by (auto simp: subset_iff)
    qed
  qed
  then have "nextId (snd R) \<notin> snd ` set vars1" by auto
  with v1(1) have d: "distinct (map snd (getTrainableVariables m))"
    unfolding vars by (rule update_values_distinct)
  have range: "snd ` set (getTrainableVariables m) \<subseteq> {n0..<nextId (snd f)}"
  proof
    fix x assume "x \<in> snd ` set (getTrainableVariables m)"
    with update_values_subset [of "''final_proj''" "nextId (snd R)" vars1]
    have "x = nextId (snd R) \<or> x \<in> snd ` set vars1" unfolding vars by blast
    with range1 have "n0 \<le> x \<and> x < nextId (snd R) + 1"
      using R(1) by (auto simp: held_def)
    then show "x \<in> {n0..<nextId (snd f)}" unfolding f(2) by simp
  qed
  have ok: "variables_ok m (snd f)"
    unfolding variables_ok_def list_all_iff
  proof
    fix p assume "p \<in> set (getTrainableVariables m)"
    with range have "n0 \<le> snd p \<and> snd p < nextId (snd f)" by auto
    with f(3) obtain t where "variables (snd f) (snd p) = Some t" "well_sized t"
      unfolding held_def by blast
    then show "case variables (snd f) (snd p) of None \<Rightarrow> False
               | Some t \<Rightarrow> length (data t) = prod_list (shape t)"
      by (simp add: well_sized_def)
  qed
  from ok d show ?thesis unfolding new by simp
qed

end
